theory Spec2Isabelle
  imports
    Complex_Main
    "HOL-Library.AList"
    "HOL-Library.Char_ord"
    "HOL-Library.List_Lexorder"
    "HOL-Library.Product_Lexorder"
    "HOL-Library.Multiset"
begin

section \<open>Values, errors and time\<close>

text \<open>
  A shallow embedding of \<^verbatim>\<open>weppy/cache.py\<close>. Python values are the datatype
  \<open>pyval\<close>; an exception is a value of \<open>py_error\<close> and a call that may raise returns
  \<open>py_error + 'a\<close> (\<open>Inl\<close> the exception). \<^verbatim>\<open>time.time()\<close> is a parameter of every
  operation that reads the clock; times and durations are real numbers of seconds.
  Keys are strings, compared as Python compares them (lexicographically by character
  code), and a heap tuple \<^verbatim>\<open>(time, key)\<close> is a pair compared lexicographically.
\<close>

datatype py_error =
  KeyError | ValueError | IndexError | TypeError | OSError
  | PickleError | EOFError | DataError | ResponseError

datatype pyval =
  PNone
  | PBool bool
  | PInt int
  | PStr string
  | PList "pyval list"
  | PTuple "pyval list"
  | PDict "(string \<times> pyval) list"

section \<open>Duration normalisation and key prefixing (CacheHandler)\<close>

text \<open>
  The \<^verbatim>\<open>duration\<close> argument of \<^verbatim>\<open>set\<close>: \<^verbatim>\<open>None\<close>, the string \<^verbatim>\<open>"default"\<close>, or a number.
\<close>

datatype duration = DNone | DDefault | DSecs real

text \<open>
  \<^verbatim>\<open>_convert_duration_\<close>: the wrapper resolves the duration, reads the clock and hands
  \<^verbatim>\<open>now\<close>, \<^verbatim>\<open>duration\<close> and \<^verbatim>\<open>expiration = now + duration\<close> to the wrapped method. The
  result is that triple.
\<close>

definition resolve_duration :: "real \<Rightarrow> duration \<Rightarrow> real" where
  "resolve_duration default_expire d =
     (case d of
        DNone \<Rightarrow> 60 * 60 * 24 * 365
      | DDefault \<Rightarrow> default_expire
      | DSecs n \<Rightarrow> n)"

definition convert_duration :: "real \<Rightarrow> duration \<Rightarrow> real \<Rightarrow> real \<times> real \<times> real" where
  "convert_duration default_expire d now =
     (let dur = resolve_duration default_expire d in (now, dur, now + dur))"

text \<open>\<^verbatim>\<open>_key_prefix_\<close>: the prefix is put before a key that is not \<^verbatim>\<open>None\<close>.\<close>

definition key_prefix :: "string \<Rightarrow> string option \<Rightarrow> string option" where
  "key_prefix pre key = (case key of None \<Rightarrow> None | Some k \<Rightarrow> Some (pre @ k))"

section \<open>The binary heap of Python's heapq and list.remove\<close>

text \<open>
  \<^verbatim>\<open>heapq\<close> keeps a binary heap in a list: \<^verbatim>\<open>heappush\<close> appends and sifts the new item
  towards the root, \<^verbatim>\<open>heappop\<close> moves the last item to the root and sifts it towards the
  leaves, then back. The functions below follow \<^verbatim>\<open>heapq._siftdown\<close>, \<^verbatim>\<open>heapq._siftup\<close>,
  \<^verbatim>\<open>heapq.heappush\<close> and \<^verbatim>\<open>heapq.heappop\<close> statement by statement. Every index they read
  is below the length of the list.
\<close>

function siftdown_loop :: "'a::linorder list \<Rightarrow> nat \<Rightarrow> nat \<Rightarrow> 'a \<Rightarrow> 'a list" where
  "siftdown_loop heap startpos pos newitem =
     (if startpos < pos then
        (let parentpos = (pos - 1) div 2; parent = heap ! parentpos in
         if newitem < parent
         then siftdown_loop (heap[pos := parent]) startpos parentpos newitem
         else heap[pos := newitem])
      else heap[pos := newitem])"
  by pat_completeness auto
termination
  by (relation "measure (\<lambda>(heap, startpos, pos, newitem). pos)") auto

declare siftdown_loop.simps [simp del]

definition siftdown :: "'a::linorder list \<Rightarrow> nat \<Rightarrow> nat \<Rightarrow> 'a list" where
  "siftdown heap startpos pos = siftdown_loop heap startpos pos (heap ! pos)"

function siftup_loop :: "'a::linorder list \<Rightarrow> nat \<Rightarrow> 'a list \<times> nat" where
  "siftup_loop heap pos =
     (let endpos = length heap; childpos = 2 * pos + 1 in
      if childpos < endpos then
        (let rightpos = childpos + 1;
             childpos' = (if rightpos < endpos \<and> \<not> heap ! childpos < heap ! rightpos
                          then rightpos else childpos)
         in siftup_loop (heap[pos := heap ! childpos']) childpos')
      else (heap, pos))"
  by pat_completeness auto
termination
  by (relation "measure (\<lambda>(heap, pos). length heap - pos)") (auto simp: Let_def)

declare siftup_loop.simps [simp del]

definition siftup :: "'a::linorder list \<Rightarrow> nat \<Rightarrow> 'a list" where
  "siftup heap pos =
     (let newitem = heap ! pos; (h, p) = siftup_loop heap pos
      in siftdown (h[p := newitem]) pos p)"

definition heappush :: "'a::linorder list \<Rightarrow> 'a \<Rightarrow> 'a list" where
  "heappush heap item = siftdown (heap @ [item]) 0 (length heap)"

definition heappop :: "'a::linorder list \<Rightarrow> py_error + ('a \<times> 'a list)" where
  "heappop heap =
     (if heap = [] then Inl IndexError
      else (let lastelt = last heap; h = butlast heap in
            if h \<noteq> [] then Inr (hd h, siftup (h[0 := lastelt]) 0)
            else Inr (lastelt, [])))"

text \<open>\<^verbatim>\<open>list.remove(x)\<close>: the first occurrence goes; \<^verbatim>\<open>ValueError\<close> when there is none.\<close>

definition list_remove :: "'a \<Rightarrow> 'a list \<Rightarrow> py_error + 'a list" where
  "list_remove x xs = (if x \<in> set xs then Inr (remove1 x xs) else Inl ValueError)"

subsection \<open>The heap functions keep the length\<close>

lemma length_siftdown_loop [simp]:
  "length (siftdown_loop heap startpos pos newitem) = length heap"
  by (induction heap startpos pos newitem rule: siftdown_loop.induct)
     (subst siftdown_loop.simps, simp add: Let_def)

lemma length_siftup_loop [simp]: "length (fst (siftup_loop heap pos)) = length heap"
  by (induction heap pos rule: siftup_loop.induct)
     (subst siftup_loop.simps, simp add: Let_def)

lemma length_siftup [simp]: "length (siftup heap pos) = length heap"
proof -
  obtain h p where hp: "siftup_loop heap pos = (h, p)"
    by (cases "siftup_loop heap pos")
  have "length h = length heap"
    using length_siftup_loop [of heap pos] hp by simp
  then show ?thesis
    by (simp add: siftup_def siftdown_def hp Let_def)
qed

lemma length_heappush [simp]: "length (heappush heap item) = Suc (length heap)"
  by (simp add: heappush_def siftdown_def)

lemma length_heappop:
  "heappop heap = Inr (item, h') \<Longrightarrow> Suc (length h') = length heap"
  by (cases heap rule: rev_cases) (auto simp: heappop_def Let_def split: if_splits)

section \<open>The memory backend (RamCache)\<close>

record RamElement =
  el_value :: pyval
  el_exp :: real
  el_acc :: real

text \<open>
  One \<^verbatim>\<open>RamCache\<close>: its configuration, the dict \<^verbatim>\<open>data\<close> (an association list with one
  pair per key), and the two heaps. The source keeps \<^verbatim>\<open>data\<close> and the heaps on the class;
  the model is of a single instance.
\<close>

record RamCache =
  ram_prefix :: string
  ram_threshold :: int
  ram_default_expire :: real
  ram_data :: "(string \<times> RamElement) list"
  heap_exp :: "(real \<times> string) list"
  heap_acc :: "(real \<times> string) list"


subsection \<open>_prune\<close>

text \<open>
  The body of the first loop of \<^verbatim>\<open>_prune\<close>: pop the root of the expiry heap; an expired
  root takes its tuple out of the access heap and its entry out of \<^verbatim>\<open>data\<close> and the loop
  goes on (\<open>Inr True\<close>), the first root that is not expired is pushed back and ends the
  loop (\<open>Inr False\<close>). \<^verbatim>\<open>self.data[rk]\<close> raises \<^verbatim>\<open>KeyError\<close> and \<^verbatim>\<open>remove\<close> raises
  \<^verbatim>\<open>ValueError\<close>; the state is then left as the exception found it.
\<close>

definition expired_step :: "real \<Rightarrow> RamCache \<Rightarrow> (py_error + bool) \<times> RamCache" where
  "expired_step now s =
     (case heappop (heap_exp s) of
        Inl e \<Rightarrow> (Inl e, s)
      | Inr ((expiry, rk), h) \<Rightarrow>
          (let s1 = s\<lparr>heap_exp := h\<rparr> in
           if expiry < now then
             (case map_of (ram_data s1) rk of
                None \<Rightarrow> (Inl KeyError, s1)
              | Some el \<Rightarrow>
                  (case list_remove (el_acc el, rk) (heap_acc s1) of
                     Inl e \<Rightarrow> (Inl e, s1)
                   | Inr ha \<Rightarrow>
                       (Inr True,
                        s1\<lparr>heap_acc := ha, ram_data := AList.delete rk (ram_data s1)\<rparr>)))
           else (Inr False, s1\<lparr>heap_exp := heappush h (expiry, rk)\<rparr>)))"

lemma expired_step_length:
  "expired_step now s = (Inr True, s1) \<Longrightarrow> length (heap_exp s1) < length (heap_exp s)"
  by (auto simp: expired_step_def Let_def dest: length_heappop
      split: sum.splits prod.splits if_splits option.splits)

function prune_expired :: "real \<Rightarrow> RamCache \<Rightarrow> (py_error + unit) \<times> RamCache" where
  "prune_expired now s =
     (if heap_exp s \<noteq> [] then
        (case expired_step now s of
           (Inl e, s1) \<Rightarrow> (Inl e, s1)
         | (Inr True, s1) \<Rightarrow> prune_expired now s1
         | (Inr False, s1) \<Rightarrow> (Inr (), s1))
      else (Inr (), s))"
  by pat_completeness auto
termination
  by (relation "measure (\<lambda>(now, s). length (heap_exp s))")
     (auto dest: expired_step_length [OF sym])

declare prune_expired.simps [simp del]

text \<open>
  The body of the second loop: pop the root of the access heap (\<^verbatim>\<open>IndexError\<close> on an
  empty heap), take the key's tuple out of the expiry heap and its entry out of
  \<^verbatim>\<open>data\<close>. The loop runs while \<^verbatim>\<open>data\<close> holds more entries than the threshold.
\<close>

definition threshold_step :: "RamCache \<Rightarrow> (py_error + unit) \<times> RamCache" where
  "threshold_step s =
     (case heappop (heap_acc s) of
        Inl e \<Rightarrow> (Inl e, s)
      | Inr ((acc, rk), h) \<Rightarrow>
          (let s1 = s\<lparr>heap_acc := h\<rparr> in
           case map_of (ram_data s1) rk of
             None \<Rightarrow> (Inl KeyError, s1)
           | Some el \<Rightarrow>
               (case list_remove (el_exp el, rk) (heap_exp s1) of
                  Inl e \<Rightarrow> (Inl e, s1)
                | Inr he \<Rightarrow>
                    (Inr (),
                     s1\<lparr>heap_exp := he, ram_data := AList.delete rk (ram_data s1)\<rparr>))))"

lemma threshold_step_length:
  "threshold_step s = (Inr u, s1) \<Longrightarrow> length (heap_acc s1) < length (heap_acc s)"
  by (auto simp: threshold_step_def Let_def dest: length_heappop
      split: sum.splits prod.splits option.splits)

function prune_threshold :: "RamCache \<Rightarrow> (py_error + unit) \<times> RamCache" where
  "prune_threshold s =
     (if ram_threshold s < int (length (ram_data s)) then
        (case threshold_step s of
           (Inl e, s1) \<Rightarrow> (Inl e, s1)
         | (Inr u, s1) \<Rightarrow> prune_threshold s1)
      else (Inr (), s))"
  by pat_completeness auto
termination
  by (relation "measure (\<lambda>s. length (heap_acc s))")
     (auto dest: threshold_step_length [OF sym])

declare prune_threshold.simps [simp del]

definition RamCache_prune :: "real \<Rightarrow> RamCache \<Rightarrow> (py_error + unit) \<times> RamCache" where
  "RamCache_prune now s =
     (case prune_expired now s of
        (Inl e, s1) \<Rightarrow> (Inl e, s1)
      | (Inr u, s1) \<Rightarrow> prune_threshold s1)"

subsection \<open>get, set, clear\<close>

text \<open>
  \<^verbatim>\<open>get\<close> catches \<^verbatim>\<open>KeyError\<close> only: a key that \<^verbatim>\<open>data\<close> does not hold is a miss, an
  expired entry is a miss and stays where it is, and the \<^verbatim>\<open>ValueError\<close> of \<^verbatim>\<open>remove\<close>
  reaches the caller. A hit sets the entry's \<^verbatim>\<open>acc\<close> to \<^verbatim>\<open>now\<close> and moves its tuple in
  the access heap.
\<close>

definition RamCache_get :: "RamCache \<Rightarrow> string \<Rightarrow> real \<Rightarrow> (py_error + pyval) \<times> RamCache" where
  "RamCache_get s key now =
     (let k = ram_prefix s @ key in
      case map_of (ram_data s) k of
        None \<Rightarrow> (Inr PNone, s)
      | Some element \<Rightarrow>
          if el_exp element < now then (Inr PNone, s)
          else
            (case list_remove (el_acc element, k) (heap_acc s) of
               Inl e \<Rightarrow> (Inl e, s)
             | Inr h \<Rightarrow>
                 (Inr (el_value element),
                  s\<lparr>heap_acc := heappush h (now, k),
                    ram_data := AList.update k (element\<lparr>el_acc := now\<rparr>) (ram_data s)\<rparr>)))"

text \<open>
  \<^verbatim>\<open>set\<close>: the duration wrapper reads the clock (\<open>now\<close>), \<^verbatim>\<open>_prune\<close> reads it again
  (\<open>pnow\<close>), then both tuples are pushed and the entry is stored. Nothing is taken out
  for a key that \<^verbatim>\<open>data\<close> already holds.
\<close>

definition RamCache_set ::
  "RamCache \<Rightarrow> string \<Rightarrow> pyval \<Rightarrow> duration \<Rightarrow> real \<Rightarrow> real \<Rightarrow> (py_error + unit) \<times> RamCache" where
  "RamCache_set s key v d now pnow =
     (let k = ram_prefix s @ key;
          (now', dur, expiration) = convert_duration (ram_default_expire s) d now
      in case RamCache_prune pnow s of
           (Inl e, s1) \<Rightarrow> (Inl e, s1)
         | (Inr u, s1) \<Rightarrow>
             (Inr (),
              s1\<lparr>heap_exp := heappush (heap_exp s1) (expiration, k),
                 heap_acc := heappush (heap_acc s1) (now', k),
                 ram_data :=
                   AList.update k \<lparr>el_value = v, el_exp = expiration, el_acc = now'\<rparr>
                     (ram_data s1)\<rparr>))"

text \<open>
  \<^verbatim>\<open>clear\<close>: with a key, the entry and its two tuples go, and any exception on the way
  ends the call silently (what was removed before it stays removed); without a key
  all three structures are emptied.
\<close>

definition RamCache_clear :: "RamCache \<Rightarrow> string option \<Rightarrow> RamCache" where
  "RamCache_clear s key =
     (case key_prefix (ram_prefix s) key of
        Some k \<Rightarrow>
          (case map_of (ram_data s) k of
             None \<Rightarrow> s
           | Some rv \<Rightarrow>
               (case list_remove (el_acc rv, k) (heap_acc s) of
                  Inl e \<Rightarrow> s
                | Inr ha \<Rightarrow>
                    (case list_remove (el_exp rv, k) (heap_exp s) of
                       Inl e \<Rightarrow> s\<lparr>heap_acc := ha\<rparr>
                     | Inr he \<Rightarrow>
                         s\<lparr>heap_acc := ha, heap_exp := he,
                           ram_data := AList.delete k (ram_data s)\<rparr>)))
      | None \<Rightarrow> s\<lparr>ram_data := [], heap_acc := [], heap_exp := []\<rparr>)"

text \<open>
  \<^verbatim>\<open>get_or_set\<close> of \<^verbatim>\<open>CacheHandler\<close>, on the memory backend. The producer is a function
  of no argument; the third component of the result counts its calls (0 or 1).
\<close>

definition RamCache_get_or_set ::
  "RamCache \<Rightarrow> string \<Rightarrow> (unit \<Rightarrow> pyval) \<Rightarrow> duration \<Rightarrow> real \<Rightarrow> real \<Rightarrow> real
     \<Rightarrow> (py_error + pyval) \<times> RamCache \<times> nat" where
  "RamCache_get_or_set s key function d gnow now pnow =
     (case RamCache_get s key gnow of
        (Inl e, s1) \<Rightarrow> (Inl e, s1, 0)
      | (Inr v, s1) \<Rightarrow>
          if v = PNone then
            (let v' = function () in
             case RamCache_set s1 key v' d now pnow of
               (Inl e, s2) \<Rightarrow> (Inl e, s2, 1)
             | (Inr u, s2) \<Rightarrow> (Inr v', s2, 1))
          else (Inr v, s1, 0))"

subsection \<open>Two runs of the memory backend\<close>

text \<open>An empty cache with no prefix, the given threshold and the default expiry of 300.\<close>

definition ram_empty :: "int \<Rightarrow> RamCache" where
  "ram_empty n =
     \<lparr>ram_prefix = [], ram_threshold = n, ram_default_expire = 300,
      ram_data = [], heap_exp = [], heap_acc = []\<rparr>"


text \<open>
  The run \<^verbatim>\<open>set("k",1,1); set("k",2,1)\<close> at times 0 and 1/2 on a cache of threshold 500:
  the second call replaces the entry of \<^verbatim>\<open>"k"\<close>.
\<close>

definition replaced :: RamCache where
  "replaced =
     (let s1 = snd (RamCache_set (ram_empty 500) ''k'' (PInt 1) (DSecs 1) 0 0)
      in snd (RamCache_set s1 ''k'' (PInt 2) (DSecs 1) (1 / 2) (1 / 2)))"

text \<open>
  Heap order, the invariant of \<^verbatim>\<open>heapq\<close>: no item is smaller than its parent, the item at
  index \<open>(i - 1) div 2\<close>. A list in heap order has its least item at the root.
\<close>

definition heap_order :: "'a::linorder list \<Rightarrow> bool" where
  "heap_order h = list_all (\<lambda>i. h ! ((i - 1) div 2) \<le> h ! i) [1..<length h]"

text \<open>
  The run \<^verbatim>\<open>set("k1",1,100)\<close>, ..., \<^verbatim>\<open>set("k5",5,100)\<close> at times 1 to 5 and
  \<^verbatim>\<open>get("k2")\<close> at time 6, on a cache of threshold 3.
\<close>

definition five_sets :: RamCache where
  "five_sets =
     (let s1 = snd (RamCache_set (ram_empty 3) ''k1'' (PInt 1) (DSecs 100) 1 1);
          s2 = snd (RamCache_set s1 ''k2'' (PInt 2) (DSecs 100) 2 2);
          s3 = snd (RamCache_set s2 ''k3'' (PInt 3) (DSecs 100) 3 3);
          s4 = snd (RamCache_set s3 ''k4'' (PInt 4) (DSecs 100) 4 4)
      in snd (RamCache_set s4 ''k5'' (PInt 5) (DSecs 100) 5 5))"

definition five_sets_get :: RamCache where
  "five_sets_get = snd (RamCache_get five_sets ''k2'' 6)"

section \<open>The remote backend (RedisCache)\<close>

subsection \<open>Decimal text of an integer: str and int\<close>

text \<open>
  \<^verbatim>\<open>str(value)\<close> of a Python integer is its decimal text, with \<^verbatim>\<open>-\<close> before a negative
  one. \<^verbatim>\<open>int(text)\<close> drops white space at both ends, reads one optional sign and then
  decimal digits, at least one, and raises \<^verbatim>\<open>ValueError\<close> on any other text. (Python 3.6
  and later also read single underscores between digits; no text that \<^verbatim>\<open>_dump_obj\<close>
  writes holds one.)
\<close>

definition digit_char :: "nat \<Rightarrow> char" where
  "digit_char n = char_of (48 + n)"

fun str_nat :: "nat \<Rightarrow> string" where
  "str_nat n = (if n < 10 then [digit_char n] else str_nat (n div 10) @ [digit_char (n mod 10)])"

declare str_nat.simps [simp del]

definition str_int :: "int \<Rightarrow> string" where
  "str_int i = (if i < 0 then CHR ''-'' # str_nat (nat (- i)) else str_nat (nat i))"

definition is_space :: "char \<Rightarrow> bool" where
  "is_space c = (c \<in> {CHR '' '', CHR 0x09, CHR 0x0A, CHR 0x0B, CHR 0x0C, CHR 0x0D})"

definition strip :: "string \<Rightarrow> string" where
  "strip s = rev (dropWhile is_space (rev (dropWhile is_space s)))"

definition is_digit :: "char \<Rightarrow> bool" where
  "is_digit c = (48 \<le> (of_char c :: nat) \<and> (of_char c :: nat) \<le> 57)"

definition digit_val :: "char \<Rightarrow> nat" where
  "digit_val c = of_char c - 48"

definition parse_digits :: "string \<Rightarrow> nat" where
  "parse_digits ds = foldl (\<lambda>a c. 10 * a + digit_val c) 0 ds"

definition py_int :: "string \<Rightarrow> py_error + int" where
  "py_int s =
     (let t = strip s;
          (neg, ds) =
            (case t of
               [] \<Rightarrow> (False, [])
             | c # r \<Rightarrow>
                 if c = CHR ''-'' then (True, r)
                 else if c = CHR ''+'' then (False, r)
                 else (False, t))
      in if ds \<noteq> [] \<and> list_all is_digit ds
         then Inr (if neg then - int (parse_digits ds) else int (parse_digits ds))
         else Inl ValueError)"

subsection \<open>_dump_obj and _load_obj\<close>

text \<open>
  \<^verbatim>\<open>pickle.dumps\<close> and \<^verbatim>\<open>pickle.loads\<close> are parameters: \<open>dumps\<close> gives the bytes of a value,
  \<open>loads\<close> a value or the exception it raises. \<^verbatim>\<open>_dump_obj\<close> writes an integer (a value
  whose type is \<^verbatim>\<open>int\<close>; \<^verbatim>\<open>bool\<close> is not) as its decimal text and any other value as \<^verbatim>\<open>!\<close>
  followed by its pickle. \<^verbatim>\<open>_load_obj\<close> catches \<^verbatim>\<open>PickleError\<close> after the marker and
  \<^verbatim>\<open>ValueError\<close> of \<^verbatim>\<open>int\<close>; any other exception of \<^verbatim>\<open>pickle.loads\<close> reaches the caller.
\<close>

definition dump_obj :: "(pyval \<Rightarrow> string) \<Rightarrow> pyval \<Rightarrow> string" where
  "dump_obj dumps v = (case v of PInt i \<Rightarrow> str_int i | _ \<Rightarrow> CHR ''!'' # dumps v)"

definition load_obj :: "(string \<Rightarrow> py_error + pyval) \<Rightarrow> string option \<Rightarrow> py_error + pyval" where
  "load_obj loads val =
     (case val of
        None \<Rightarrow> Inr PNone
      | Some b \<Rightarrow>
          if b \<noteq> [] \<and> hd b = CHR ''!'' then
            (case loads (tl b) of
               Inl e \<Rightarrow> if e = PickleError then Inr PNone else Inl e
             | Inr v \<Rightarrow> Inr v)
          else
            (case py_int b of
               Inl e \<Rightarrow> Inr PNone
             | Inr i \<Rightarrow> Inr (PInt i)))"

subsection \<open>The store: the Redis commands that the backend calls\<close>

text \<open>
  The store is outside the repository; the model keeps, for each name, the bytes and
  the instant at which the store drops them, and answers the five commands that
  \<^verbatim>\<open>RedisCache\<close> sends. \<^verbatim>\<open>GET\<close> and \<^verbatim>\<open>KEYS\<close> see a name until its instant; \<^verbatim>\<open>SETEX\<close> refuses
  a time that is not a positive whole number of seconds; \<^verbatim>\<open>KEYS\<close> matches a glob
  pattern, of which \<^verbatim>\<open>*\<close> and \<^verbatim>\<open>?\<close> are modelled; \<^verbatim>\<open>FLUSHDB\<close> empties the store.
\<close>

type_synonym rstore = "(string \<times> string \<times> real) list"

definition redis_get :: "rstore \<Rightarrow> string \<Rightarrow> real \<Rightarrow> string option" where
  "redis_get st name now =
     (case map_of st name of
        None \<Rightarrow> None
      | Some (v, e) \<Rightarrow> if now < e then Some v else None)"

definition redis_setex ::
  "rstore \<Rightarrow> string \<Rightarrow> string \<Rightarrow> real \<Rightarrow> real \<Rightarrow> (py_error + unit) \<times> rstore" where
  "redis_setex st name v secs now =
     (if secs \<le> 0 \<or> secs \<notin> \<int> then (Inl ResponseError, st)
      else (Inr (), AList.update name (v, now + secs) st))"

fun glob :: "string \<Rightarrow> string \<Rightarrow> bool" where
  "glob [] s = (s = [])"
| "glob (p # ps) [] = (p = CHR ''*'' \<and> glob ps [])"
| "glob (p # ps) (c # cs) =
     (if p = CHR ''*'' then glob ps (c # cs) \<or> glob (p # ps) cs
      else (p = CHR ''?'' \<or> p = c) \<and> glob ps cs)"

definition redis_keys :: "rstore \<Rightarrow> string \<Rightarrow> real \<Rightarrow> string list" where
  "redis_keys st pattern now =
     map fst (filter (\<lambda>(n, v, e). now < e \<and> glob pattern n) st)"

text \<open>
  \<^verbatim>\<open>delete(*names)\<close> of the client sends one \<^verbatim>\<open>DEL\<close> with every name and returns the
  number of names the store held. A name that is a string goes as it is. What the
  client does with a name that is not a string is the parameter \<open>enc\<close>: redis-py 3
  raises \<^verbatim>\<open>DataError\<close>, redis-py 2 sends the text \<^verbatim>\<open>str(name)\<close>. The command is built
  before it is sent, so an argument that cannot be encoded deletes nothing.
\<close>

fun encode_names :: "(pyval \<Rightarrow> py_error + string) \<Rightarrow> pyval list \<Rightarrow> py_error + string list" where
  "encode_names enc [] = Inr []"
| "encode_names enc (n # ns) =
     (case (case n of PStr s \<Rightarrow> Inr s | _ \<Rightarrow> enc n) of
        Inl e \<Rightarrow> Inl e
      | Inr s \<Rightarrow>
          (case encode_names enc ns of
             Inl e \<Rightarrow> Inl e
           | Inr ss \<Rightarrow> Inr (s # ss)))"

definition redis_delete ::
  "(pyval \<Rightarrow> py_error + string) \<Rightarrow> rstore \<Rightarrow> pyval list \<Rightarrow> real
     \<Rightarrow> (py_error + int) \<times> rstore" where
  "redis_delete enc st names now =
     (case encode_names enc names of
        Inl e \<Rightarrow> (Inl e, st)
      | Inr ns \<Rightarrow>
          if ns = [] then (Inl ResponseError, st)
          else (Inr (int (length (filter (\<lambda>(n, v, e). n \<in> set ns \<and> now < e) st))),
                filter (\<lambda>(n, v, e). n \<notin> set ns) st))"

definition redis_flushdb :: "rstore \<Rightarrow> rstore" where
  "redis_flushdb st = []"

subsection \<open>get, set, clear\<close>

record RedisCache =
  redis_prefix :: string
  redis_default_expire :: real

definition RedisCache_get ::
  "(string \<Rightarrow> py_error + pyval) \<Rightarrow> RedisCache \<Rightarrow> rstore \<Rightarrow> string \<Rightarrow> real \<Rightarrow> py_error + pyval" where
  "RedisCache_get loads c st key rnow = load_obj loads (redis_get st (redis_prefix c @ key) rnow)"

text \<open>
  \<^verbatim>\<open>set\<close> stores the encoded value with the resolved duration as the time of \<^verbatim>\<open>setex\<close>;
  \<open>now\<close> is the clock of the wrapper and \<open>rnow\<close> the clock of the store.
\<close>

definition RedisCache_set ::
  "(pyval \<Rightarrow> string) \<Rightarrow> RedisCache \<Rightarrow> rstore \<Rightarrow> string \<Rightarrow> pyval \<Rightarrow> duration \<Rightarrow> real \<Rightarrow> real
     \<Rightarrow> (py_error + unit) \<times> rstore" where
  "RedisCache_set dumps c st key v d now rnow =
     (let (now', dur, expiration) = convert_duration (redis_default_expire c) d now;
          dumped = dump_obj dumps v
      in redis_setex st (redis_prefix c @ key) dumped dur rnow)"

text \<open>
  \<^verbatim>\<open>clear\<close>. With a key that ends in \<^verbatim>\<open>*\<close> the source calls
  \<^verbatim>\<open>self._cache.delete(self._cache.keys(key))\<close>: one argument, the list of matching names;
  the number that \<^verbatim>\<open>delete\<close> returns is then unpacked as the arguments of a second
  \<^verbatim>\<open>delete\<close>, which raises \<^verbatim>\<open>TypeError\<close> unless the number is 0. With any other key the
  one name is deleted. Without a key every name under the prefix is deleted, the
  whole store when the prefix is empty.
\<close>

definition RedisCache_clear ::
  "(pyval \<Rightarrow> py_error + string) \<Rightarrow> RedisCache \<Rightarrow> rstore \<Rightarrow> string option \<Rightarrow> real
     \<Rightarrow> (py_error + unit) \<times> rstore" where
  "RedisCache_clear enc c st key rnow =
     (case key_prefix (redis_prefix c) key of
        Some k \<Rightarrow>
          if k \<noteq> [] \<and> last k = CHR ''*'' then
            (case redis_delete enc st [PList (map PStr (redis_keys st k rnow))] rnow of
               (Inl e, st1) \<Rightarrow> (Inl e, st1)
             | (Inr n, st1) \<Rightarrow> if n \<noteq> 0 then (Inl TypeError, st1) else (Inr (), st1))
          else
            (case redis_delete enc st [PStr k] rnow of
               (Inl e, st1) \<Rightarrow> (Inl e, st1)
             | (Inr n, st1) \<Rightarrow> (Inr (), st1))
      | None \<Rightarrow>
          if redis_prefix c \<noteq> [] then
            (let keys = redis_keys st (redis_prefix c @ ''*'') rnow in
             if keys \<noteq> [] then
               (case redis_delete enc st (map PStr keys) rnow of
                  (Inl e, st1) \<Rightarrow> (Inl e, st1)
                | (Inr n, st1) \<Rightarrow> (Inr (), st1))
             else (Inr (), st))
          else (Inr (), redis_flushdb st))"

subsection \<open>A store, a backend and two clients\<close>

text \<open>
  A backend with the prefix \<^verbatim>\<open>cache:\<close> and a store that holds three of its names, none
  of them due before time 100.
\<close>

definition cache_c :: RedisCache where
  "cache_c = \<lparr>redis_prefix = ''cache:'', redis_default_expire = 300\<rparr>"

definition store3 :: rstore where
  "store3 = [(''cache:a1'', ''1'', 100), (''cache:a2'', ''2'', 100), (''cache:b'', ''3'', 100)]"

text \<open>
  The two clients: redis-py 3 raises \<^verbatim>\<open>DataError\<close> for an argument that is a list,
  redis-py 2 sends the text of the list.
\<close>

definition client3 :: "pyval \<Rightarrow> py_error + string" where
  "client3 v = Inl DataError"

definition client2 :: "pyval \<Rightarrow> py_error + string" where
  "client2 v = Inr ''[b'cache:a1', b'cache:a2']''"

text \<open>
  A stand-in for \<^verbatim>\<open>pickle\<close> on strings, for evaluating the encoding: the bytes of a string
  are its characters.
\<close>

definition str_dumps :: "pyval \<Rightarrow> string" where
  "str_dumps v = (case v of PStr s \<Rightarrow> s | _ \<Rightarrow> [])"

definition str_loads :: "string \<Rightarrow> py_error + pyval" where
  "str_loads b = Inr (PStr b)"

section \<open>The disk backend (DiskCache)\<close>

subsection \<open>The cache directory\<close>

text \<open>
  A file of the cache directory, as the backend meets it: its name, whether
  \<^verbatim>\<open>LockedFile(path, 'rb')\<close> opens it, what the first \<^verbatim>\<open>pickle.load\<close> returns (the expiry;
  \<open>None\<close> when it raises), what the second returns (the value; \<open>None\<close> when it raises),
  and whether \<^verbatim>\<open>os.remove\<close> succeeds on it. The directory is the list of its files in
  the order of \<^verbatim>\<open>os.listdir\<close>, and \<open>listable\<close> says whether \<^verbatim>\<open>os.listdir\<close> succeeds.
\<close>

record dfile =
  fname :: string
  openable :: bool
  header :: "real option"
  payload :: "pyval option"
  removable :: bool

record cache_dir =
  entries :: "dfile list"
  listable :: bool

record DiskCache =
  disk_threshold :: int
  disk_default_expire :: real

definition fs_transaction_suffix :: string where
  "fs_transaction_suffix = ''.__wp_cache''"

definition endswith :: "string \<Rightarrow> string \<Rightarrow> bool" where
  "endswith s suffix =
     (length suffix \<le> length s \<and> drop (length s - length suffix) s = suffix)"

definition dir_lookup :: "dfile list \<Rightarrow> string \<Rightarrow> dfile option" where
  "dir_lookup d name = find (\<lambda>f. fname f = name) d"

text \<open>
  \<^verbatim>\<open>_get_filename\<close>: the hex digest of the key (the directory part of the path is left
  out). \<^verbatim>\<open>hashlib_sha1\<close> comes from \<^verbatim>\<open>_compat\<close> and is the parameter \<open>H\<close>; a key that is
  not a string raises \<^verbatim>\<open>TypeError\<close> there.
\<close>

definition get_filename :: "(string \<Rightarrow> string) \<Rightarrow> pyval \<Rightarrow> py_error + string" where
  "get_filename H key = (case key of PStr k \<Rightarrow> Inr (H k) | _ \<Rightarrow> Inl TypeError)"

text \<open>\<^verbatim>\<open>_del_file\<close>: \<^verbatim>\<open>os.remove\<close>, any exception ignored.\<close>

definition del_file :: "dfile list \<Rightarrow> string \<Rightarrow> dfile list" where
  "del_file d name =
     (case dir_lookup d name of
        None \<Rightarrow> d
      | Some f \<Rightarrow> if removable f then filter (\<lambda>g. fname g \<noteq> name) d else d)"

text \<open>\<^verbatim>\<open>_list_dir\<close>: the names that do not end in the suffix of temporary files.\<close>

definition list_dir :: "cache_dir \<Rightarrow> py_error + string list" where
  "list_dir fs =
     (if listable fs
      then Inr (filter (\<lambda>fn. \<not> endswith fn fs_transaction_suffix) (map fname (entries fs)))
      else Inl OSError)"

subsection \<open>_prune\<close>

text \<open>Opening a file and loading its expiry, as \<^verbatim>\<open>_prune\<close> and \<^verbatim>\<open>get\<close> both begin.\<close>

definition read_header :: "dfile list \<Rightarrow> string \<Rightarrow> py_error + real" where
  "read_header d name =
     (case dir_lookup d name of
        None \<Rightarrow> Inl OSError
      | Some f \<Rightarrow>
          if \<not> openable f then Inl OSError
          else (case header f of None \<Rightarrow> Inl PickleError | Some e \<Rightarrow> Inr e))"

text \<open>
  The loop of \<^verbatim>\<open>_prune\<close> over \<^verbatim>\<open>enumerate(entries)\<close>, from index \<open>i\<close>: a file whose expiry
  cannot be read ends the pass (\<^verbatim>\<open>except Exception: pass\<close> around the loop); otherwise
  the file goes to \<^verbatim>\<open>_del_file\<close> when \<^verbatim>\<open>exp <= now or i % 3 == 0\<close>.
\<close>

fun prune_scan :: "real \<Rightarrow> nat \<Rightarrow> string list \<Rightarrow> dfile list \<Rightarrow> dfile list" where
  "prune_scan now i [] d = d"
| "prune_scan now i (fpath # rest) d =
     (case read_header d fpath of
        Inl e \<Rightarrow> d
      | Inr ex \<Rightarrow>
          (let remove = (ex \<le> now \<or> i mod 3 = 0);
               d' = (if remove then del_file d fpath else d)
           in prune_scan now (Suc i) rest d'))"

text \<open>
  \<^verbatim>\<open>_prune\<close>: \<^verbatim>\<open>_list_dir\<close> is called before the \<^verbatim>\<open>try\<close>, so its exception leaves
  \<^verbatim>\<open>_prune\<close>; the scan runs when the listing is longer than the threshold.
\<close>

definition DiskCache_prune :: "DiskCache \<Rightarrow> cache_dir \<Rightarrow> real \<Rightarrow> (py_error + unit) \<times> cache_dir" where
  "DiskCache_prune c fs now =
     (case list_dir fs of
        Inl e \<Rightarrow> (Inl e, fs)
      | Inr names \<Rightarrow>
          if disk_threshold c < int (length names)
          then (Inr (), fs\<lparr>entries := prune_scan now 0 names (entries fs)\<rparr>)
          else (Inr (), fs))"

subsection \<open>get, set, clear\<close>

text \<open>The body of the \<^verbatim>\<open>try\<close> of \<^verbatim>\<open>get\<close>.\<close>

definition read_file :: "dfile list \<Rightarrow> string \<Rightarrow> real \<Rightarrow> py_error + pyval" where
  "read_file d filename now =
     (case read_header d filename of
        Inl e \<Rightarrow> Inl e
      | Inr ex \<Rightarrow>
          if ex < now then Inr PNone
          else (case dir_lookup d filename of
                  None \<Rightarrow> Inl OSError
                | Some f \<Rightarrow> (case payload f of None \<Rightarrow> Inl PickleError | Some v \<Rightarrow> Inr v)))"

text \<open>
  \<^verbatim>\<open>get\<close>: the file name is computed before the \<^verbatim>\<open>try\<close>; every exception of the body is
  a miss.
\<close>

definition DiskCache_get ::
  "(string \<Rightarrow> string) \<Rightarrow> cache_dir \<Rightarrow> pyval \<Rightarrow> real \<Rightarrow> py_error + pyval" where
  "DiskCache_get H fs key now =
     (case get_filename H key of
        Inl e \<Rightarrow> Inl e
      | Inr filename \<Rightarrow>
          (case read_file (entries fs) filename now of
             Inl e \<Rightarrow> Inr PNone
           | Inr v \<Rightarrow> Inr v))"

text \<open>
  The steps of the \<^verbatim>\<open>try\<close> of \<^verbatim>\<open>set\<close> and the one of them that raises, if any:
  \<^verbatim>\<open>tempfile.mkstemp\<close>, the \<^verbatim>\<open>pickle.dump\<close> of the expiration, the \<^verbatim>\<open>pickle.dump\<close> of the
  value, \<^verbatim>\<open>os.rename\<close>, \<^verbatim>\<open>os.chmod\<close>.
\<close>

datatype write_fault =
  NoFault | MkstempFails | DumpExpirationFails | DumpValueFails | RenameFails | ChmodFails

text \<open>
  The \<^verbatim>\<open>try\<close> of \<^verbatim>\<open>set\<close>, whose exceptions are all ignored. \<open>tmp\<close> is the name that \<^verbatim>\<open>mkstemp\<close>
  picks, to which the suffix is added. A step that raises leaves what the steps before
  it did: the temporary file stays, and after a \<^verbatim>\<open>rename\<close> the new file is in place.
\<close>

definition write_file ::
  "dfile list \<Rightarrow> string \<Rightarrow> real \<Rightarrow> pyval \<Rightarrow> string \<Rightarrow> write_fault \<Rightarrow> dfile list" where
  "write_file d filename expiration v tmp fault =
     (let tmpname = tmp @ fs_transaction_suffix;
          created = \<lparr>fname = tmpname, openable = True, header = None, payload = None,
                     removable = True\<rparr>
      in if fault = MkstempFails then d
         else if fault = DumpExpirationFails then d @ [created]
         else if fault = DumpValueFails then d @ [created\<lparr>header := Some expiration\<rparr>]
         else if fault = RenameFails
           then d @ [created\<lparr>header := Some expiration, payload := Some v\<rparr>]
         else filter (\<lambda>f. fname f \<noteq> filename \<and> fname f \<noteq> tmpname) d
                @ [created\<lparr>fname := filename, header := Some expiration, payload := Some v\<rparr>])"

text \<open>
  \<^verbatim>\<open>set\<close>: the duration wrapper reads the clock (\<open>now\<close>), \<^verbatim>\<open>_prune\<close> reads it again
  (\<open>pnow\<close>) and runs outside the \<^verbatim>\<open>try\<close>, then the file is written.
\<close>

definition DiskCache_set ::
  "(string \<Rightarrow> string) \<Rightarrow> DiskCache \<Rightarrow> cache_dir \<Rightarrow> pyval \<Rightarrow> pyval \<Rightarrow> duration \<Rightarrow> real \<Rightarrow> real
     \<Rightarrow> string \<Rightarrow> write_fault \<Rightarrow> (py_error + unit) \<times> cache_dir" where
  "DiskCache_set H c fs key v d now pnow tmp fault =
     (let (now', dur, expiration) = convert_duration (disk_default_expire c) d now in
      case get_filename H key of
        Inl e \<Rightarrow> (Inl e, fs)
      | Inr filename \<Rightarrow>
          (case DiskCache_prune c fs pnow of
             (Inl e, fs1) \<Rightarrow> (Inl e, fs1)
           | (Inr u, fs1) \<Rightarrow>
               (Inr (),
                fs1\<lparr>entries := write_file (entries fs1) filename expiration v tmp fault\<rparr>)))"

text \<open>
  \<^verbatim>\<open>clear\<close>: with a key, \<^verbatim>\<open>os.remove\<close> of its file, any exception ignored; without,
  \<^verbatim>\<open>_del_file\<close> on every listed name.
\<close>

definition DiskCache_clear ::
  "(string \<Rightarrow> string) \<Rightarrow> cache_dir \<Rightarrow> pyval option \<Rightarrow> (py_error + unit) \<times> cache_dir" where
  "DiskCache_clear H fs key =
     (case key of
        Some k \<Rightarrow>
          (case get_filename H k of
             Inl e \<Rightarrow> (Inl e, fs)
           | Inr filename \<Rightarrow> (Inr (), fs\<lparr>entries := del_file (entries fs) filename\<rparr>))
      | None \<Rightarrow>
          (case list_dir fs of
             Inl e \<Rightarrow> (Inl e, fs)
           | Inr names \<Rightarrow> (Inr (), fs\<lparr>entries := foldl del_file (entries fs) names\<rparr>)))"

subsection \<open>The pruning rule, as the specification words it\<close>

text \<open>
  The rule of the specification, for the listing \<open>ns\<close> scanned from index \<open>i\<close> over the
  directory \<open>d\<close>: the file \<open>f\<close> is deleted when it stands at some position \<open>j\<close> of the
  listing, the expiry of every file up to that position can be read, its own expiry is
  at most \<open>now\<close> or its index is a multiple of 3, and its removal succeeds.
\<close>

definition readable :: "dfile list \<Rightarrow> string \<Rightarrow> bool" where
  "readable d name = (case read_header d name of Inl e \<Rightarrow> False | Inr ex \<Rightarrow> True)"

definition scan_deletes :: "real \<Rightarrow> nat \<Rightarrow> string list \<Rightarrow> dfile list \<Rightarrow> dfile \<Rightarrow> bool" where
  "scan_deletes now i ns d f =
     list_ex
       (\<lambda>j. fname f = ns ! j
            \<and> list_all (readable d) (take (Suc j) ns)
            \<and> (case header f of None \<Rightarrow> False | Some ex \<Rightarrow> ex \<le> now \<or> (i + j) mod 3 = 0)
            \<and> removable f)
       [0..<length ns]"

subsection \<open>Two directories\<close>

text \<open>A readable, removable file with the given name, expiry and value.\<close>

definition cache_file :: "string \<Rightarrow> real \<Rightarrow> pyval \<Rightarrow> dfile" where
  "cache_file name ex v =
     \<lparr>fname = name, openable = True, header = Some ex, payload = Some v, removable = True\<rparr>"

text \<open>
  Six files, listed in this order: two that expire at 200, one that expired at 5, one
  whose expiry cannot be loaded, one more that expired at 5, and a temporary file.
\<close>

definition dir6 :: cache_dir where
  "dir6 =
     \<lparr>entries =
        [cache_file ''aa'' 200 (PInt 0), cache_file ''bb'' 200 (PInt 1),
         cache_file ''cc'' 5 (PInt 2), (cache_file ''dd'' 5 (PInt 3))\<lparr>header := None\<rparr>,
         cache_file ''ee'' 5 (PInt 4), cache_file ''tmpx.__wp_cache'' 200 (PInt 5)],
      listable = True\<rparr>"

text \<open>
  Two files: the first expires at 200 and cannot be removed, the second expired at 5.
\<close>

definition dir2 :: cache_dir where
  "dir2 =
     \<lparr>entries = [(cache_file ''aa'' 200 (PInt 0))\<lparr>removable := False\<rparr>,
                 cache_file ''bb'' 5 (PInt 1)],
      listable = True\<rparr>"

text \<open>
  A stand-in for the hex digest, for evaluating the backend: the key with \<^verbatim>\<open>0\<close> added.
  Like a hex digest, it never ends in the suffix of temporary files.
\<close>

definition name_of :: "string \<Rightarrow> string" where
  "name_of k = k @ ''0''"

text \<open>
  A directory that holds the files of the keys \<^verbatim>\<open>x\<close> and \<^verbatim>\<open>y\<close>, with the values 7 and 8,
  both due at 200.
\<close>

definition dir_xy :: cache_dir where
  "dir_xy =
     \<lparr>entries = [cache_file ''x0'' 200 (PInt 7), cache_file ''y0'' 200 (PInt 8)],
      listable = True\<rparr>"

section \<open>Properties of the memory backend\<close>

subsection \<open>The heap functions permute the list\<close>

lemma mset_siftdown_loop:
  "pos < length heap \<Longrightarrow>
   mset (siftdown_loop heap startpos pos newitem) = mset (heap[pos := newitem])"
proof (induction heap startpos pos newitem rule: siftdown_loop.induct)
  case (1 heap startpos pos newitem)
  show ?case
  proof (cases "startpos < pos \<and> newitem < heap ! ((pos - 1) div 2)")
    case False
    then show ?thesis
      by (subst siftdown_loop.simps) (auto simp: Let_def)
  next
    case True
    define pp where "pp = (pos - 1) div 2"
    have pp: "pp < pos" "pp < length heap"
      using True "1.prems" by (auto simp: pp_def)
    have "mset (siftdown_loop heap startpos pos newitem)
          = mset (siftdown_loop (heap[pos := heap ! pp]) startpos pp newitem)"
      using True by (subst siftdown_loop.simps) (simp add: Let_def pp_def)
    also have "\<dots> = mset (heap[pos := heap ! pp, pp := newitem])"
      using "1.IH" [of pp "heap ! pp"] True pp by (simp add: pp_def)
    also have "\<dots> = mset (heap[pos := newitem])"
      using mset_swap [of pp "heap[pos := newitem]" pos] pp "1.prems" by simp
    finally show ?thesis .
  qed
qed

lemma mset_heappush: "mset (heappush heap item) = add_mset item (mset heap)"
  by (simp add: heappush_def siftdown_def mset_siftdown_loop)

lemma set_heappush: "set (heappush heap item) = insert item (set heap)"
  using mset_heappush [of heap item] by (metis set_mset_add_mset_insert set_mset_mset)


lemma threshold_step_config:
  "threshold_step s = (r, s1) \<Longrightarrow>
   ram_threshold s1 = ram_threshold s \<and> ram_prefix s1 = ram_prefix s
   \<and> ram_default_expire s1 = ram_default_expire s"
  by (auto simp: threshold_step_def Let_def split: sum.splits prod.splits option.splits)

lemma expired_step_config:
  "expired_step now s = (r, s1) \<Longrightarrow>
   ram_threshold s1 = ram_threshold s \<and> ram_prefix s1 = ram_prefix s
   \<and> ram_default_expire s1 = ram_default_expire s"
  by (auto simp: expired_step_def Let_def split: sum.splits prod.splits option.splits if_splits)

lemma prune_threshold_config:
  "prune_threshold s = (r, s') \<Longrightarrow>
   ram_threshold s' = ram_threshold s \<and> ram_prefix s' = ram_prefix s
   \<and> ram_default_expire s' = ram_default_expire s"
proof (induction s rule: prune_threshold.induct)
  case (1 s)
  show ?case
    using "1.prems" "1.IH"
    by (subst (asm) prune_threshold.simps)
       (auto split: if_splits sum.splits prod.splits dest!: threshold_step_config)
qed

lemma prune_threshold_bound:
  "prune_threshold s = (Inr u, s') \<Longrightarrow> int (length (ram_data s')) \<le> ram_threshold s'"
proof (induction s rule: prune_threshold.induct)
  case (1 s)
  show ?case
    using "1.prems" "1.IH"
    by (subst (asm) prune_threshold.simps)
       (auto split: if_splits sum.splits prod.splits)
qed

lemma prune_expired_config:
  "prune_expired now s = (r, s') \<Longrightarrow>
   ram_threshold s' = ram_threshold s \<and> ram_prefix s' = ram_prefix s
   \<and> ram_default_expire s' = ram_default_expire s"
proof (induction now s rule: prune_expired.induct)
  case (1 now s)
  show ?case
    using "1.prems" "1.IH"
    by (subst (asm) prune_expired.simps)
       (auto split: if_splits sum.splits prod.splits bool.splits dest!: expired_step_config)
qed


lemma RamCache_prune_config:
  "RamCache_prune now s = (r, s') \<Longrightarrow>
   ram_threshold s' = ram_threshold s \<and> ram_prefix s' = ram_prefix s
   \<and> ram_default_expire s' = ram_default_expire s"
  by (auto simp: RamCache_prune_def split: prod.splits sum.splits
      dest!: prune_expired_config prune_threshold_config)

lemma RamCache_prune_bound:
  "RamCache_prune now s = (Inr u, s') \<Longrightarrow> int (length (ram_data s')) \<le> ram_threshold s"
  using prune_threshold_bound prune_threshold_config prune_expired_config
  by (fastforce simp: RamCache_prune_def split: prod.splits sum.splits)

lemma RamCache_set_Inr:
  assumes "RamCache_set s key v d now pnow = (Inr u, s')"
  obtains s1 where "RamCache_prune pnow s = (Inr (), s1)"
    and "s' = s1\<lparr>heap_exp := heappush (heap_exp s1)
                   (now + resolve_duration (ram_default_expire s) d, ram_prefix s @ key),
                 heap_acc := heappush (heap_acc s1) (now, ram_prefix s @ key),
                 ram_data := AList.update (ram_prefix s @ key)
                   \<lparr>el_value = v, el_exp = now + resolve_duration (ram_default_expire s) d,
                    el_acc = now\<rparr> (ram_data s1)\<rparr>"
  using assms
  by (auto simp: RamCache_set_def convert_duration_def Let_def split: prod.splits sum.splits)

lemma RamCache_set_get:
  assumes "RamCache_set s key v d now pnow = (Inr u, s')"
    and "gnow \<le> now + resolve_duration (ram_default_expire s) d"
  shows "fst (RamCache_get s' key gnow) = Inr v"
proof -
  from assms(1) obtain s1 where p: "RamCache_prune pnow s = (Inr (), s1)"
    and s': "s' = s1\<lparr>heap_exp := heappush (heap_exp s1)
                   (now + resolve_duration (ram_default_expire s) d, ram_prefix s @ key),
                 heap_acc := heappush (heap_acc s1) (now, ram_prefix s @ key),
                 ram_data := AList.update (ram_prefix s @ key)
                   \<lparr>el_value = v, el_exp = now + resolve_duration (ram_default_expire s) d,
                    el_acc = now\<rparr> (ram_data s1)\<rparr>"
    by (rule RamCache_set_Inr)
  have pre: "ram_prefix s1 = ram_prefix s"
    using RamCache_prune_config [OF p] by simp
  show ?thesis
    using assms(2)
    by (simp add: s' pre RamCache_get_def Let_def update_conv' list_remove_def set_heappush)
qed

lemma RamCache_set_size:
  assumes "RamCache_set s key v d now pnow = (Inr u, s')"
  shows "int (length (ram_data s')) \<le> ram_threshold s + 1"
proof -
  from assms obtain s1 where p: "RamCache_prune pnow s = (Inr (), s1)"
    and s': "s' = s1\<lparr>heap_exp := heappush (heap_exp s1)
                   (now + resolve_duration (ram_default_expire s) d, ram_prefix s @ key),
                 heap_acc := heappush (heap_acc s1) (now, ram_prefix s @ key),
                 ram_data := AList.update (ram_prefix s @ key)
                   \<lparr>el_value = v, el_exp = now + resolve_duration (ram_default_expire s) d,
                    el_acc = now\<rparr> (ram_data s1)\<rparr>"
    by (rule RamCache_set_Inr)
  have "length (AList.update k x xs) \<le> Suc (length xs)" for k :: string and x :: RamElement and xs
    by (induction xs) auto
  then have "length (ram_data s') \<le> Suc (length (ram_data s1))"
    by (simp add: s')
  then have "int (length (ram_data s')) \<le> int (length (ram_data s1)) + 1"
    by linarith
  then show ?thesis
    using RamCache_prune_bound [OF p] by linarith
qed

subsection \<open>Heap order, and one eviction\<close>












subsection \<open>Evaluating the runs\<close>

text \<open>The equations that unfold a call of the memory backend on concrete arguments.\<close>

lemmas ram_eval =
  ram_empty_def RamCache_set_def RamCache_get_def RamCache_prune_def
  prune_expired.simps prune_threshold.simps expired_step_def threshold_step_def
  heappop_def heappush_def siftdown_def siftup_def siftdown_loop.simps siftup_loop.simps
  convert_duration_def resolve_duration_def list_remove_def Let_def


lemma replaced_eq:
  "replaced = \<lparr>ram_prefix = [], ram_threshold = 500, ram_default_expire = 300,
     ram_data = [(''k'', \<lparr>el_value = PInt 2, el_exp = 3 / 2, el_acc = 1 / 2\<rparr>)],
     heap_exp = [(1, ''k''), (3 / 2, ''k'')],
     heap_acc = [(0, ''k''), (1 / 2, ''k'')]\<rparr>"
  by (simp add: replaced_def ram_eval)

lemma RamCache_get_miss:
  "map_of (ram_data s) (ram_prefix s @ key) = None \<Longrightarrow> RamCache_get s key now = (Inr PNone, s)"
  by (simp add: RamCache_get_def)

lemma RamCache_set_get_any:
  assumes "RamCache_set s key v d now pnow = (Inr u, s')"
  shows "fst (RamCache_get s' key gnow) = Inr v \<or> fst (RamCache_get s' key gnow) = Inr PNone"
proof -
  from assms obtain s1 where p: "RamCache_prune pnow s = (Inr (), s1)"
    and s': "s' = s1\<lparr>heap_exp := heappush (heap_exp s1)
                   (now + resolve_duration (ram_default_expire s) d, ram_prefix s @ key),
                 heap_acc := heappush (heap_acc s1) (now, ram_prefix s @ key),
                 ram_data := AList.update (ram_prefix s @ key)
                   \<lparr>el_value = v, el_exp = now + resolve_duration (ram_default_expire s) d,
                    el_acc = now\<rparr> (ram_data s1)\<rparr>"
    by (rule RamCache_set_Inr)
  have pre: "ram_prefix s1 = ram_prefix s"
    using RamCache_prune_config [OF p] by simp
  show ?thesis
    by (simp add: s' pre RamCache_get_def Let_def update_conv' list_remove_def set_heappush)
qed

lemma five_sets_eq:
  "five_sets = \<lparr>ram_prefix = [], ram_threshold = 3, ram_default_expire = 300,
    ram_data =
      [(''k2'', \<lparr>el_value = PInt 2, el_exp = 102, el_acc = 2\<rparr>),
       (''k3'', \<lparr>el_value = PInt 3, el_exp = 103, el_acc = 3\<rparr>),
       (''k4'', \<lparr>el_value = PInt 4, el_exp = 104, el_acc = 4\<rparr>),
       (''k5'', \<lparr>el_value = PInt 5, el_exp = 105, el_acc = 5\<rparr>)],
    heap_exp = [(102, ''k2''), (104, ''k4''), (103, ''k3''), (105, ''k5'')],
    heap_acc = [(2, ''k2''), (4, ''k4''), (3, ''k3''), (5, ''k5'')]\<rparr>"
  by (simp add: five_sets_def ram_eval)

lemma five_sets_get_eq:
  "five_sets_get = \<lparr>ram_prefix = [], ram_threshold = 3, ram_default_expire = 300,
    ram_data =
      [(''k2'', \<lparr>el_value = PInt 2, el_exp = 102, el_acc = 6\<rparr>),
       (''k3'', \<lparr>el_value = PInt 3, el_exp = 103, el_acc = 3\<rparr>),
       (''k4'', \<lparr>el_value = PInt 4, el_exp = 104, el_acc = 4\<rparr>),
       (''k5'', \<lparr>el_value = PInt 5, el_exp = 105, el_acc = 5\<rparr>)],
    heap_exp = [(102, ''k2''), (104, ''k4''), (103, ''k3''), (105, ''k5'')],
    heap_acc = [(4, ''k4''), (3, ''k3''), (5, ''k5''), (6, ''k2'')]\<rparr>"
  by (simp add: five_sets_get_def five_sets_eq ram_eval)

section \<open>Claims about the memory backend and the duration wrapper\<close>

text \<open>
  C2. The claim: after any sequence of get, set and clear the two heaps and the map hold
  the same keys, one tuple per key in each heap, a replacing set having first removed
  the old tuples. \<^verbatim>\<open>RamCache.set\<close> removes nothing: after \<^verbatim>\<open>set("k",1,1)\<close> and
  \<^verbatim>\<open>set("k",2,1)\<close> the map holds one entry for \<^verbatim>\<open>"k"\<close> and each heap two tuples, and
  once both tuples have expired the next \<^verbatim>\<open>set\<close> raises \<^verbatim>\<open>KeyError\<close> in \<^verbatim>\<open>_prune\<close>:
  the first tuple deletes the entry and the second looks it up.
\<close>

theorem set_replace_leaves_old_tuples:
  "map fst (ram_data replaced) = [''k'']
   \<and> map snd (heap_exp replaced) = [''k'', ''k'']
   \<and> map snd (heap_acc replaced) = [''k'', ''k'']
   \<and> fst (RamCache_set replaced ''j'' (PInt 3) (DSecs 5) 10 10) = Inl KeyError"
  by (simp add: replaced_eq ram_eval)




text \<open>
  Heap order of the access heap is a hypothesis of the amended C3 because the code does
  not keep it: \<^verbatim>\<open>get\<close>, \<^verbatim>\<open>clear\<close> and \<^verbatim>\<open>_prune\<close> take a tuple out with \<^verbatim>\<open>list.remove\<close>,
  which shifts the rest of the list and does not restore the heap. With threshold 3,
  after \<^verbatim>\<open>set\<close> of \<^verbatim>\<open>k1\<close> to \<^verbatim>\<open>k5\<close> at times 1 to 5 the access heap is in heap order;
  \<^verbatim>\<open>get("k2")\<close> at time 6 leaves \<^verbatim>\<open>(4, k4)\<close> at the root above \<^verbatim>\<open>(3, k3)\<close>, and the next
  \<^verbatim>\<open>set\<close> evicts \<^verbatim>\<open>k4\<close>, accessed at 4, and keeps \<^verbatim>\<open>k3\<close>, accessed at 3. This is a
  defect of the code against the eviction order of the specification, not part of the
  amended statement.
\<close>

theorem get_breaks_heap_order:
  "heap_order (heap_acc five_sets)
   \<and> heap_acc five_sets_get = [(4, ''k4''), (3, ''k3''), (5, ''k5''), (6, ''k2'')]
   \<and> \<not> heap_order (heap_acc five_sets_get)
   \<and> map (\<lambda>(k, el). (k, el_acc el)) (ram_data five_sets_get)
       = [(''k2'', 6), (''k3'', 3), (''k4'', 4), (''k5'', 5)]
   \<and> map fst (ram_data (snd (RamCache_set five_sets_get ''k6'' (PInt 6) (DSecs 100) 7 7)))
       = [''k2'', ''k3'', ''k5'', ''k6'']"
proof -
  have "heap_order (heap_acc five_sets)"
    by (simp add: five_sets_eq heap_order_def upt_rec)
  moreover have "\<not> heap_order (heap_acc five_sets_get)"
    by (simp add: five_sets_get_eq heap_order_def upt_rec)
  moreover have "map fst (ram_data (snd (RamCache_set five_sets_get ''k6'' (PInt 6) (DSecs 100) 7 7)))
       = [''k2'', ''k3'', ''k5'', ''k6'']"
    by (simp add: five_sets_get_eq ram_eval)
  ultimately show ?thesis
    by (simp add: five_sets_get_eq)
qed

text \<open>
  C9. Duration normalisation: \<^verbatim>\<open>None\<close> resolves to one year of seconds
  (60 * 60 * 24 * 365 = 31536000), \<^verbatim>\<open>"default"\<close> to the configured default expiry, a
  number to itself; with a non-negative default and a non-negative number the resolved
  duration is at least 0; the wrapper hands on \<^verbatim>\<open>now + duration\<close> as the expiration, and
  the entry that \<^verbatim>\<open>RamCache.set\<close> stores expires at \<^verbatim>\<open>now + duration\<close>.
\<close>

theorem duration_normalised:
  assumes "0 \<le> default_expire" and "\<forall>n. d = DSecs n \<longrightarrow> 0 \<le> n"
  shows "resolve_duration default_expire DNone = 31536000
    \<and> resolve_duration default_expire DDefault = default_expire
    \<and> resolve_duration default_expire (DSecs m) = m
    \<and> 0 \<le> resolve_duration default_expire d
    \<and> convert_duration default_expire d now
        = (now, resolve_duration default_expire d, now + resolve_duration default_expire d)
    \<and> (RamCache_set s key v d now pnow = (Inr u, s') \<longrightarrow>
         ram_default_expire s = default_expire \<longrightarrow>
         map_of (ram_data s') (ram_prefix s @ key)
           = Some \<lparr>el_value = v, el_exp = now + resolve_duration default_expire d,
                   el_acc = now\<rparr>)"
proof -
  have "0 \<le> resolve_duration default_expire d"
    using assms by (cases d) (simp_all add: resolve_duration_def)
  moreover have "RamCache_set s key v d now pnow = (Inr u, s') \<longrightarrow>
         ram_default_expire s = default_expire \<longrightarrow>
         map_of (ram_data s') (ram_prefix s @ key)
           = Some \<lparr>el_value = v, el_exp = now + resolve_duration default_expire d,
                   el_acc = now\<rparr>"
    by (auto elim!: RamCache_set_Inr simp: update_conv')
  moreover have "resolve_duration default_expire DNone = 31536000"
    "resolve_duration default_expire DDefault = default_expire"
    "resolve_duration default_expire (DSecs m) = m"
    by (simp_all add: resolve_duration_def)
  moreover have "convert_duration default_expire d now
        = (now, resolve_duration default_expire d, now + resolve_duration default_expire d)"
    by (simp add: convert_duration_def Let_def)
  ultimately show ?thesis
    by blast
qed

theorem duration_normalised_witness:
  "(0::real) \<le> 300 \<and> (\<forall>n. DDefault = DSecs n \<longrightarrow> 0 \<le> n) = True
   \<and> resolve_duration 300 DNone = 31536000
   \<and> resolve_duration 300 DDefault = 300
   \<and> resolve_duration 300 (DSecs 60) = 60
   \<and> convert_duration 300 DDefault 1000 = (1000, 300, 1300)
   \<and> map_of (ram_data (snd (RamCache_set (ram_empty 5) ''a'' (PInt 1) DDefault 1000 1000))) ''a''
        = Some \<lparr>el_value = PInt 1, el_exp = 1300, el_acc = 1000\<rparr>"
proof -
  have e: "RamCache_set (ram_empty 5) ''a'' (PInt 1) DDefault 1000 1000
     = (Inr (), snd (RamCache_set (ram_empty 5) ''a'' (PInt 1) DDefault 1000 1000))"
    by (simp add: ram_eval)
  have d: "ram_default_expire (ram_empty 5) = 300" "ram_prefix (ram_empty 5) = []"
    by (simp_all add: ram_empty_def)
  show ?thesis
    using duration_normalised [of 300 DDefault 60 1000 "ram_empty 5" "''a''" "PInt 1" 1000 "()"
        "snd (RamCache_set (ram_empty 5) ''a'' (PInt 1) DDefault 1000 1000)"] e d
    by simp
qed

text \<open>
  C10. A miss and a stored \<^verbatim>\<open>None\<close> are the same result: \<^verbatim>\<open>get\<close> of a key that the map
  does not hold returns \<^verbatim>\<open>None\<close>, and so does \<^verbatim>\<open>get\<close> after \<^verbatim>\<open>set(k, None, d)\<close>, at any
  time. \<^verbatim>\<open>get_or_set\<close> calls the producer whenever \<^verbatim>\<open>get\<close> returns \<^verbatim>\<open>None\<close>; when the
  producer returns \<^verbatim>\<open>None\<close>, a call that ran it and returned is followed by calls that
  run it again.
\<close>

theorem none_is_a_miss:
  assumes "producer () = PNone"
  shows "(map_of (ram_data t) (ram_prefix t @ key) = None \<longrightarrow>
            fst (RamCache_get t key gnow) = Inr PNone)
    \<and> (RamCache_set s key PNone d now pnow = (Inr u, s') \<longrightarrow>
            fst (RamCache_get s' key gnow) = Inr PNone)
    \<and> (fst (RamCache_get s key gnow) = Inr PNone \<longrightarrow>
            snd (snd (RamCache_get_or_set s key g d gnow now pnow)) = 1)
    \<and> (RamCache_get_or_set s key producer d gnow now pnow = (Inr r, s', 1) \<longrightarrow>
            r = PNone
            \<and> snd (snd (RamCache_get_or_set s' key producer d' gnow' now' pnow')) = 1)"
proof -
  have a: "map_of (ram_data t) (ram_prefix t @ key) = None \<longrightarrow>
            fst (RamCache_get t key gnow) = Inr PNone"
    by (simp add: RamCache_get_miss)
  have b: "RamCache_set t key PNone e n p = (Inr w, t') \<Longrightarrow>
            fst (RamCache_get t' key m) = Inr PNone" for t e n p w t' m
    using RamCache_set_get_any [of t key PNone e n p w t' m] by auto
  have c: "fst (RamCache_get t key m) = Inr PNone \<Longrightarrow>
            snd (snd (RamCache_get_or_set t key h e m n p)) = 1" for t m h e n p
    by (cases "RamCache_get t key m")
       (auto simp: RamCache_get_or_set_def Let_def split: prod.splits sum.splits)
  have d: "RamCache_get_or_set s key producer d gnow now pnow = (Inr r, s', 1) \<longrightarrow>
            r = PNone
            \<and> snd (snd (RamCache_get_or_set s' key producer d' gnow' now' pnow')) = 1"
  proof
    assume g: "RamCache_get_or_set s key producer d gnow now pnow = (Inr r, s', 1)"
    then obtain s1 where "RamCache_set s1 key PNone d now pnow = (Inr (), s')" and "r = PNone"
      using assms
      by (auto simp: RamCache_get_or_set_def Let_def split: prod.splits sum.splits if_splits)
    then show "r = PNone
            \<and> snd (snd (RamCache_get_or_set s' key producer d' gnow' now' pnow')) = 1"
      using b c by blast
  qed
  show ?thesis
    using a b c d by blast
qed

theorem none_is_a_miss_witness:
  "(\<lambda>u. PNone) () = PNone
   \<and> RamCache_get_or_set (ram_empty 5) ''a'' (\<lambda>u. PNone) DDefault 0 0 0
       = (Inr PNone,
          \<lparr>ram_prefix = [], ram_threshold = 5, ram_default_expire = 300,
           ram_data = [(''a'', \<lparr>el_value = PNone, el_exp = 300, el_acc = 0\<rparr>)],
           heap_exp = [(300, ''a'')], heap_acc = [(0, ''a'')]\<rparr>, 1)
   \<and> snd (snd (RamCache_get_or_set
         \<lparr>ram_prefix = [], ram_threshold = 5, ram_default_expire = 300,
          ram_data = [(''a'', \<lparr>el_value = PNone, el_exp = 300, el_acc = 0\<rparr>)],
          heap_exp = [(300, ''a'')], heap_acc = [(0, ''a'')]\<rparr>
         ''a'' (\<lambda>u. PNone) DDefault 1 1 1)) = 1"
proof -
  have e: "RamCache_get_or_set (ram_empty 5) ''a'' (\<lambda>u. PNone) DDefault 0 0 0
       = (Inr PNone,
          \<lparr>ram_prefix = [], ram_threshold = 5, ram_default_expire = 300,
           ram_data = [(''a'', \<lparr>el_value = PNone, el_exp = 300, el_acc = 0\<rparr>)],
           heap_exp = [(300, ''a'')], heap_acc = [(0, ''a'')]\<rparr>, 1)"
    by (simp add: RamCache_get_or_set_def ram_eval)
  show ?thesis
    using none_is_a_miss [where producer = "\<lambda>u. PNone" and s = "ram_empty 5"
        and key = "''a''" and d = DDefault and gnow = 0 and now = 0 and pnow = 0
        and r = PNone and d' = DDefault and gnow' = 1 and now' = 1 and pnow' = 1
        and s' = "\<lparr>ram_prefix = [], ram_threshold = 5, ram_default_expire = 300,
           ram_data = [(''a'', \<lparr>el_value = PNone, el_exp = 300, el_acc = 0\<rparr>)],
           heap_exp = [(300, ''a'')], heap_acc = [(0, ''a'')]\<rparr>"] e
    by simp
qed

section \<open>Properties of the remote backend\<close>

subsection \<open>The decimal text of an integer reads back as the integer\<close>

lemma of_char_digit_char: "k < 10 \<Longrightarrow> (of_char (digit_char k) :: nat) = 48 + k"
  by (simp add: digit_char_def)

lemma is_digit_digit_char: "k < 10 \<Longrightarrow> is_digit (digit_char k)"
  by (simp add: is_digit_def of_char_digit_char)

lemma digit_val_digit_char: "k < 10 \<Longrightarrow> digit_val (digit_char k) = k"
  by (simp add: digit_val_def of_char_digit_char)

lemma is_digit_not_space: "is_digit c \<Longrightarrow> \<not> is_space c"
  by (auto simp: is_digit_def is_space_def)

lemma is_digit_not_sign: "is_digit c \<Longrightarrow> c \<noteq> CHR ''-'' \<and> c \<noteq> CHR ''+'' \<and> c \<noteq> CHR ''!''"
  by (auto simp: is_digit_def)

lemma str_nat_digits: "str_nat n \<noteq> [] \<and> list_all is_digit (str_nat n)"
  by (induction n rule: str_nat.induct)
     (subst (1 2) str_nat.simps, simp add: is_digit_digit_char)

lemma parse_digits_snoc: "parse_digits (ds @ [c]) = 10 * parse_digits ds + digit_val c"
  by (simp add: parse_digits_def)

lemma parse_digits_str_nat: "parse_digits (str_nat n) = n"
proof (induction n rule: str_nat.induct)
  case (1 n)
  show ?case
  proof (cases "n < 10")
    case True
    then show ?thesis
      by (subst str_nat.simps) (simp add: parse_digits_def digit_val_digit_char)
  next
    case False
    then show ?thesis
      using "1.IH" by (subst str_nat.simps) (simp add: parse_digits_snoc digit_val_digit_char)
  qed
qed

lemma strip_id:
  assumes "s \<noteq> []" "\<not> is_space (hd s)" "\<not> is_space (last s)"
  shows "strip s = s"
proof -
  have "dropWhile is_space s = s"
    using assms by (cases s) auto
  moreover have "dropWhile is_space (rev s) = rev s"
    using assms by (cases "rev s") (auto simp: last_rev [symmetric] hd_rev)
  ultimately show ?thesis
    by (simp add: strip_def)
qed

lemma hd_last_digits:
  "ds \<noteq> [] \<Longrightarrow> list_all is_digit ds \<Longrightarrow> is_digit (hd ds) \<and> is_digit (last ds)"
  by (cases ds) (auto simp: list_all_iff)

lemma py_int_str_int: "py_int (str_int i) = Inr i"
proof -
  let ?ds = "str_nat (nat \<bar>i\<bar>)"
  have ds: "?ds \<noteq> []" "list_all is_digit ?ds"
    using str_nat_digits by auto
  then have hl: "is_digit (hd ?ds)" "is_digit (last ?ds)"
    using hd_last_digits by auto
  obtain c r where cr: "?ds = c # r"
    using ds(1) by (cases ?ds) auto
  have c: "is_digit c" using hl(1) cr by simp
  show ?thesis
  proof (cases "i < 0")
    case True
    then have s: "str_int i = CHR ''-'' # ?ds"
      by (simp add: str_int_def abs_if)
    have "\<not> is_space (CHR ''-'')"
      by (simp add: is_space_def)
    moreover have "\<not> is_space (last ?ds)"
      using hl(2) by (rule is_digit_not_space)
    ultimately have "strip (str_int i) = str_int i"
      using ds(1) by (intro strip_id) (simp_all add: s)
    then show ?thesis
      using True ds by (simp add: py_int_def s parse_digits_str_nat)
  next
    case False
    then have e: "str_int i = c # r"
      using cr by (simp add: str_int_def abs_if)
    have "\<not> is_space (hd ?ds)" "\<not> is_space (last ?ds)"
      using hl by (simp_all add: is_digit_not_space)
    then have st: "strip (c # r) = c # r"
      using strip_id [of "c # r"] cr by simp
    have dg: "list_all is_digit (c # r)"
      using ds(2) cr by simp
    have pd: "int (parse_digits (c # r)) = i"
      using parse_digits_str_nat [of "nat \<bar>i\<bar>"] cr False by simp
    show ?thesis
      using is_digit_not_sign [OF c] dg pd
      by (simp add: py_int_def e st Let_def)
  qed
qed

lemma str_int_no_marker: "str_int i \<noteq> [] \<and> hd (str_int i) \<noteq> CHR ''!''"
proof -
  have "str_nat n \<noteq> [] \<and> hd (str_nat n) \<noteq> CHR ''!''" for n
    using str_nat_digits [of n] hd_last_digits [of "str_nat n"] is_digit_not_sign by blast
  then show ?thesis
    by (simp add: str_int_def)
qed

subsection \<open>Encoding, then decoding\<close>

lemma load_dump_int: "load_obj loads (Some (dump_obj dumps (PInt i))) = Inr (PInt i)"
  using str_int_no_marker [of i] by (simp add: load_obj_def dump_obj_def py_int_str_int)

lemma load_dump_other:
  assumes "\<forall>i. v \<noteq> PInt i" and "loads (dumps v) = Inr v"
  shows "load_obj loads (Some (dump_obj dumps v)) = Inr v"
proof -
  have "dump_obj dumps v = CHR ''!'' # dumps v"
    using assms(1) by (cases v) (simp_all add: dump_obj_def)
  then show ?thesis
    using assms(2) by (simp add: load_obj_def)
qed

lemma load_dump:
  assumes "(\<exists>i. v = PInt i) \<or> loads (dumps v) = Inr v"
  shows "load_obj loads (Some (dump_obj dumps v)) = Inr v"
proof (cases "\<exists>i. v = PInt i")
  case True
  then show ?thesis by (auto simp: load_dump_int)
next
  case False
  then show ?thesis using assms by (intro load_dump_other) auto
qed

lemma redis_setex_get:
  assumes "redis_setex st name b secs rnow = (Inr u, st')" and "rnow' < rnow + secs"
  shows "redis_get st' name rnow' = Some b"
  using assms
  by (auto simp: redis_setex_def redis_get_def update_conv' split: if_splits)

lemma RedisCache_set_get:
  assumes "RedisCache_set dumps c st key v d now rnow = (Inr u, st')"
    and "rnow' < rnow + resolve_duration (redis_default_expire c) d"
    and "(\<exists>i. v = PInt i) \<or> loads (dumps v) = Inr v"
  shows "RedisCache_get loads c st' key rnow' = Inr v"
proof -
  have "redis_setex st (redis_prefix c @ key) (dump_obj dumps v)
          (resolve_duration (redis_default_expire c) d) rnow = (Inr u, st')"
    using assms(1) by (simp add: RedisCache_set_def convert_duration_def Let_def)
  then have "redis_get st' (redis_prefix c @ key) rnow' = Some (dump_obj dumps v)"
    using assms(2) by (rule redis_setex_get)
  then show ?thesis
    using load_dump [of v loads dumps] assms(3) by (simp add: RedisCache_get_def)
qed

subsection \<open>Evaluating the store\<close>

lemmas redis_eval =
  RedisCache_clear_def RedisCache_set_def RedisCache_get_def redis_delete_def redis_keys_def
  redis_get_def redis_setex_def redis_flushdb_def key_prefix_def cache_c_def store3_def
  client2_def client3_def convert_duration_def resolve_duration_def Let_def

section \<open>Claims about the remote backend\<close>

text \<open>
  C6. The remote encoding round-trips: an integer is written as its decimal text, with
  no marker, and reads back as itself; any other value that \<^verbatim>\<open>pickle\<close> reads back from
  its own bytes is written as the marker \<^verbatim>\<open>!\<close> followed by those bytes and reads back
  as itself; and a value stored with \<^verbatim>\<open>set\<close> is what \<^verbatim>\<open>get\<close> returns until the store
  drops it. The witness stores 42 and the string \<^verbatim>\<open>hi\<close> and reads them back.
\<close>

theorem remote_value_round_trip:
  assumes "(\<exists>i. v = PInt i) \<or> loads (dumps v) = Inr v"
  shows "load_obj loads (Some (dump_obj dumps v)) = Inr v
    \<and> dump_obj dumps v = (case v of PInt i \<Rightarrow> str_int i | _ \<Rightarrow> CHR ''!'' # dumps v)
    \<and> (RedisCache_set dumps c st key v d now rnow = (Inr u, st') \<and>
         rnow' < rnow + resolve_duration (redis_default_expire c) d
         \<longrightarrow> RedisCache_get loads c st' key rnow' = Inr v)"
proof -
  have "load_obj loads (Some (dump_obj dumps v)) = Inr v"
    using load_dump [of v loads dumps] assms by simp
  moreover have "dump_obj dumps v = (case v of PInt i \<Rightarrow> str_int i | _ \<Rightarrow> CHR ''!'' # dumps v)"
    by (simp add: dump_obj_def)
  moreover have "RedisCache_set dumps c st key v d now rnow = (Inr u, st') \<and>
         rnow' < rnow + resolve_duration (redis_default_expire c) d
         \<longrightarrow> RedisCache_get loads c st' key rnow' = Inr v"
    using RedisCache_set_get [of dumps c st key v d now rnow u st' rnow' loads] assms by blast
  ultimately show ?thesis by blast
qed

theorem remote_value_round_trip_witness:
  "load_obj str_loads (Some (dump_obj str_dumps (PInt 42))) = Inr (PInt 42)
   \<and> dump_obj str_dumps (PInt 42) = ''42''
   \<and> str_loads (str_dumps (PStr ''hi'')) = Inr (PStr ''hi'')
   \<and> load_obj str_loads (Some (dump_obj str_dumps (PStr ''hi''))) = Inr (PStr ''hi'')
   \<and> dump_obj str_dumps (PStr ''hi'') = ''!hi''
   \<and> RedisCache_set str_dumps cache_c [] ''n'' (PInt 42) DDefault 0 0
        = (Inr (), [(''cache:n'', ''42'', 300)])
   \<and> RedisCache_get str_loads cache_c [(''cache:n'', ''42'', 300)] ''n'' 1 = Inr (PInt 42)
   \<and> RedisCache_set str_dumps cache_c [] ''s'' (PStr ''hi'') DDefault 0 0
        = (Inr (), [(''cache:s'', ''!hi'', 300)])
   \<and> RedisCache_get str_loads cache_c [(''cache:s'', ''!hi'', 300)] ''s'' 1 = Inr (PStr ''hi'')"
proof -
  have s42: "str_int 42 = ''42''"
    by code_simp
  have h: "str_loads (str_dumps (PStr ''hi'')) = Inr (PStr ''hi'')"
    by (simp add: str_loads_def str_dumps_def)
  have e1: "RedisCache_set str_dumps cache_c [] ''n'' (PInt 42) DDefault 0 0
        = (Inr (), [(''cache:n'', ''42'', 300)])"
    by (simp add: redis_eval dump_obj_def s42)
  have e2: "RedisCache_set str_dumps cache_c [] ''s'' (PStr ''hi'') DDefault 0 0
        = (Inr (), [(''cache:s'', ''!hi'', 300)])"
    by (simp add: redis_eval dump_obj_def str_dumps_def)
  have d: "(1::real) < 0 + resolve_duration (redis_default_expire cache_c) DDefault"
    by (simp add: cache_c_def resolve_duration_def)
  have t1: "load_obj str_loads (Some (dump_obj str_dumps (PInt 42))) = Inr (PInt 42)
      \<and> RedisCache_get str_loads cache_c [(''cache:n'', ''42'', 300)] ''n'' 1 = Inr (PInt 42)"
    using remote_value_round_trip [of "PInt 42" str_loads str_dumps cache_c "[]" "''n''"
        DDefault 0 0 "()" "[(''cache:n'', ''42'', 300)]" 1] e1 d
    by blast
  have t2: "load_obj str_loads (Some (dump_obj str_dumps (PStr ''hi''))) = Inr (PStr ''hi'')
      \<and> RedisCache_get str_loads cache_c [(''cache:s'', ''!hi'', 300)] ''s'' 1
          = Inr (PStr ''hi'')"
    using remote_value_round_trip [of "PStr ''hi''" str_loads str_dumps cache_c "[]" "''s''"
        DDefault 0 0 "()" "[(''cache:s'', ''!hi'', 300)]" 1] h e2 d
    by blast
  have d1: "dump_obj str_dumps (PInt 42) = ''42''"
    by (simp add: dump_obj_def s42)
  have d2: "dump_obj str_dumps (PStr ''hi'') = ''!hi''"
    by (simp add: dump_obj_def str_dumps_def)
  show ?thesis
    using t1 t2 d1 d2 h e1 e2 by blast
qed

text \<open>
  C8. The claim: \<^verbatim>\<open>clear\<close> with a key that ends in \<^verbatim>\<open>*\<close> deletes exactly the matching
  names. The source passes the list of matching names to \<^verbatim>\<open>delete\<close> as one argument.
  On the store of three names, \<^verbatim>\<open>clear("a*")\<close> finds \<^verbatim>\<open>cache:a1\<close> and \<^verbatim>\<open>cache:a2\<close> and
  deletes neither: with redis-py 3 it raises \<^verbatim>\<open>DataError\<close>, with redis-py 2 it deletes
  the name spelt like the list, which the store does not hold. \<^verbatim>\<open>clear()\<close>, the branch
  beside it, unpacks the names and deletes all three.
\<close>

theorem clear_wildcard_deletes_nothing:
  "redis_keys store3 ''cache:a*'' 0 = [''cache:a1'', ''cache:a2'']
   \<and> RedisCache_clear client3 cache_c store3 (Some ''a*'') 0 = (Inl DataError, store3)
   \<and> RedisCache_clear client2 cache_c store3 (Some ''a*'') 0 = (Inr (), store3)
   \<and> RedisCache_clear client3 cache_c store3 None 0 = (Inr (), [])"
  by (simp add: redis_eval)

section \<open>Properties of the disk backend\<close>

subsection \<open>The scan of \<^verbatim>\<open>_prune\<close> deletes what the rule says\<close>

lemma dir_lookup_distinct:
  "distinct (map fname d) \<Longrightarrow> f \<in> set d \<Longrightarrow> dir_lookup d (fname f) = Some f"
  unfolding dir_lookup_def by (induction d) (auto simp: image_iff)

lemma dir_lookup_filter_other:
  "m \<noteq> n \<Longrightarrow> dir_lookup (filter (\<lambda>g. fname g \<noteq> n) d) m = dir_lookup d m"
  unfolding dir_lookup_def by (induction d) auto

lemma read_header_del_file_other:
  "m \<noteq> n \<Longrightarrow> read_header (del_file d n) m = read_header d m"
  by (simp add: read_header_def del_file_def dir_lookup_filter_other split: option.splits)

lemma readable_del_file_other:
  "m \<noteq> n \<Longrightarrow> readable (del_file d n) m = readable d m"
  by (simp add: readable_def read_header_del_file_other)

lemma distinct_del_file: "distinct (map fname d) \<Longrightarrow> distinct (map fname (del_file d n))"
  by (simp add: del_file_def distinct_map_filter split: option.splits)

lemma scan_deletes_Nil [simp]: "\<not> scan_deletes now i [] d f"
  by (simp add: scan_deletes_def)

lemma upt_0_Suc: "[0..<Suc m] = 0 # map Suc [0..<m]"
  by (simp only: map_Suc_upt upt_conv_Cons [of 0 "Suc m"] zero_less_Suc)

lemma list_ex_map_Suc: "list_ex Q (map Suc xs) \<longleftrightarrow> list_ex (\<lambda>j. Q (Suc j)) xs"
  by (induction xs) simp_all

lemma list_ex_upt_Suc:
  "list_ex Q [0..<Suc m] \<longleftrightarrow> Q 0 \<or> list_ex (\<lambda>j. Q (Suc j)) [0..<m]"
  by (simp only: upt_0_Suc list_ex_Cons_iff list_ex_map_Suc)

lemma list_ex_conj_const: "list_ex (\<lambda>j. A \<and> P j) xs \<longleftrightarrow> A \<and> list_ex P xs"
  by (induction xs) auto


lemma scan_deletes_Cons:
  "scan_deletes now i (n # ns) d f \<longleftrightarrow>
     readable d n \<and>
     ((fname f = n
        \<and> (case header f of None \<Rightarrow> False | Some ex \<Rightarrow> ex \<le> now \<or> i mod 3 = 0)
        \<and> removable f)
      \<or> scan_deletes now (Suc i) ns d f)"
proof -
  define H where "H m = (case header f of None \<Rightarrow> False | Some ex \<Rightarrow> ex \<le> now \<or> m mod 3 = 0)"
    for m :: nat
  define R where "R j = list_all (readable d) (take (Suc j) ns)" for j :: nat
  have l: "scan_deletes now i (n # ns) d f \<longleftrightarrow>
      list_ex (\<lambda>j. fname f = (n # ns) ! j
            \<and> list_all (readable d) (take (Suc j) (n # ns)) \<and> H (i + j) \<and> removable f)
        [0..<Suc (length ns)]"
    by (simp only: scan_deletes_def H_def length_Cons)
  have r: "scan_deletes now (Suc i) ns d f \<longleftrightarrow>
      list_ex (\<lambda>j. fname f = ns ! j \<and> R j \<and> H (Suc (i + j)) \<and> removable f) [0..<length ns]"
    by (simp only: scan_deletes_def H_def R_def add_Suc)
  have m: "list_ex (\<lambda>j. fname f = (n # ns) ! j
            \<and> list_all (readable d) (take (Suc j) (n # ns)) \<and> H (i + j) \<and> removable f)
        [0..<Suc (length ns)]
     \<longleftrightarrow> (fname f = n \<and> readable d n \<and> H i \<and> removable f)
        \<or> list_ex (\<lambda>j. readable d n \<and> (fname f = ns ! j \<and> R j \<and> H (Suc (i + j))
              \<and> removable f)) [0..<length ns]"
    by (subst list_ex_upt_Suc)
       (simp only: R_def nth_Cons_0 nth_Cons_Suc take_Suc_Cons take_0 list.pred_inject(2) list.pred_inject(1)
          add_0_right add_Suc_right simp_thms conj_ac)
  show ?thesis
    unfolding l m r list_ex_conj_const H_def [symmetric] by blast
qed


lemma scan_deletes_cong:
  assumes "\<forall>m \<in> set ns. readable d' m = readable d m"
  shows "scan_deletes now i ns d' f = scan_deletes now i ns d f"
proof -
  have "list_all (readable d') (take (Suc j) ns) = list_all (readable d) (take (Suc j) ns)" for j
    using assms by (auto simp: list_all_iff dest: in_set_takeD)
  then show ?thesis
    by (simp only: scan_deletes_def)
qed

lemma read_header_Inr:
  assumes "read_header d n = Inr ex" and "distinct (map fname d)" and "f \<in> set d" and "fname f = n"
  shows "header f = Some ex"
proof -
  have "dir_lookup d n = Some f"
    using dir_lookup_distinct [OF assms(2,3)] assms(4) by simp
  then show ?thesis
    using assms(1) by (auto simp: read_header_def split: if_splits option.splits)
qed

lemma del_file_filter:
  assumes "distinct (map fname d)" and "f \<in> set d" and "fname f = n"
  shows "del_file d n = filter (\<lambda>g. \<not> (fname g = n \<and> removable g)) d"
proof -
  have l: "dir_lookup d n = Some f"
    using dir_lookup_distinct [OF assms(1,2)] assms(3) by simp
  have same: "g = f" if "g \<in> set d" "fname g = n" for g
    using that assms by (metis distinct_map inj_on_def)
  show ?thesis
  proof (cases "removable f")
    case True
    have "filter (\<lambda>g. fname g \<noteq> n) d = filter (\<lambda>g. \<not> (fname g = n \<and> removable g)) d"
      using same True by (intro filter_cong) auto
    then show ?thesis using l True by (simp add: del_file_def)
  next
    case False
    have "filter (\<lambda>g. \<not> (fname g = n \<and> removable g)) d = d"
      using same False by (simp add: filter_id_conv) blast
    then show ?thesis using l False by (simp add: del_file_def)
  qed
qed

lemma fname_set_del_file:
  "m \<noteq> n \<Longrightarrow> m \<in> fname ` set d \<Longrightarrow> m \<in> fname ` set (del_file d n)"
  by (auto simp: del_file_def split: option.splits)

lemma prune_scan_filter:
  assumes "distinct (map fname d)" and "distinct ns" and "set ns \<subseteq> fname ` set d"
  shows "prune_scan now i ns d = filter (\<lambda>f. \<not> scan_deletes now i ns d f) d"
  using assms
proof (induction ns arbitrary: i d)
  case Nil
  then show ?case by simp
next
  case (Cons n rest)
  show ?case
  proof (cases "read_header d n")
    case (Inl e)
    then have "\<not> readable d n" by (simp add: readable_def)
    then have "\<not> scan_deletes now i (n # rest) d f" for f
      by (simp add: scan_deletes_Cons)
    then show ?thesis using Inl by simp
  next
    case (Inr ex)
    then have rd: "readable d n" by (simp add: readable_def)
    obtain f0 where f0: "f0 \<in> set d" "fname f0 = n"
      using Cons.prems(3) by auto
    have hdr: "header g = Some ex" if "g \<in> set d" "fname g = n" for g
      using read_header_Inr [OF Inr Cons.prems(1) that] .
    let ?remove = "ex \<le> now \<or> i mod 3 = 0"
    let ?d' = "if ?remove then del_file d n else d"
    have d': "?d' = filter (\<lambda>g. \<not> (fname g = n \<and> ?remove \<and> removable g)) d"
      using del_file_filter [OF Cons.prems(1) f0] by (cases ?remove) simp_all
    have dist': "distinct (map fname ?d')"
      using Cons.prems(1) by (simp add: distinct_del_file)
    have rest: "distinct rest" "n \<notin> set rest" "set rest \<subseteq> fname ` set d"
      using Cons.prems(2,3) by auto
    have "m \<in> fname ` set (del_file d n)" if "m \<in> set rest" for m
    proof -
      have "m \<noteq> n" "m \<in> fname ` set d" using that rest by auto
      then show ?thesis by (rule fname_set_del_file)
    qed
    then have sub': "set rest \<subseteq> fname ` set ?d'"
      using rest(3) by (cases ?remove) auto
    have "readable (del_file d n) m = readable d m" if "m \<in> set rest" for m
    proof -
      have "m \<noteq> n" using that rest by auto
      then show ?thesis by (rule readable_del_file_other)
    qed
    then have rdb: "\<forall>m \<in> set rest. readable ?d' m = readable d m"
      by (cases ?remove) auto
    have "prune_scan now i (n # rest) d = prune_scan now (Suc i) rest ?d'"
      using Inr by (simp add: Let_def)
    also have "\<dots> = filter (\<lambda>f. \<not> scan_deletes now (Suc i) rest ?d' f) ?d'"
      using Cons.IH [OF dist' rest(1) sub'] .
    also have "\<dots> = filter (\<lambda>f. \<not> scan_deletes now (Suc i) rest d f) ?d'"
      using scan_deletes_cong [OF rdb] by simp
    also have "\<dots> = filter (\<lambda>f. \<not> (fname f = n \<and> ?remove \<and> removable f)
                       \<and> \<not> scan_deletes now (Suc i) rest d f) d"
      by (subst d') (simp add: conj_commute)
    also have "\<dots> = filter (\<lambda>f. \<not> scan_deletes now i (n # rest) d f) d"
    proof (rule filter_cong [OF refl])
      fix f assume f: "f \<in> set d"
      have "fname f = n \<Longrightarrow> header f = Some ex"
        using hdr f by simp
      then show "(\<not> (fname f = n \<and> ?remove \<and> removable f)
                  \<and> \<not> scan_deletes now (Suc i) rest d f)
              = (\<not> scan_deletes now i (n # rest) d f)"
        unfolding scan_deletes_Cons using rd by auto
    qed
    finally show ?thesis .
  qed
qed

lemmas disk_eval =
  DiskCache_prune_def list_dir_def endswith_def fs_transaction_suffix_def read_header_def
  dir_lookup_def del_file_def cache_file_def readable_def Let_def

lemma list_all_take_Suc:
  "j < length ns \<Longrightarrow> list_all P (take (Suc j) ns) \<longleftrightarrow> (\<forall>k\<le>j. P (ns ! k))"
proof -
  assume j: "j < length ns"
  then have "length (take (Suc j) ns) = Suc j" by simp
  moreover have "take (Suc j) ns ! k = ns ! k" if "k < Suc j" for k
    using that by simp
  ultimately show ?thesis
    unfolding list_all_length by (metis less_Suc_eq_le)
qed

lemma scan_deletes_iff:
  "scan_deletes now i ns d f \<longleftrightarrow>
     (\<exists>j<length ns. fname f = ns ! j \<and> (\<forall>k\<le>j. readable d (ns ! k))
        \<and> (\<exists>ex. header f = Some ex \<and> (ex \<le> now \<or> (i + j) mod 3 = 0)) \<and> removable f)"
proof -
  have h: "(case header f of None \<Rightarrow> False | Some ex \<Rightarrow> ex \<le> now \<or> (i + j) mod 3 = 0)
     \<longleftrightarrow> (\<exists>ex. header f = Some ex \<and> (ex \<le> now \<or> (i + j) mod 3 = 0))" for j
    by (cases "header f") simp_all
  have a: "scan_deletes now i ns d f \<longleftrightarrow>
     (\<exists>j<length ns. fname f = ns ! j \<and> list_all (readable d) (take (Suc j) ns)
        \<and> (case header f of None \<Rightarrow> False | Some ex \<Rightarrow> ex \<le> now \<or> (i + j) mod 3 = 0)
        \<and> removable f)"
    unfolding scan_deletes_def list_ex_iff by (simp only: Bex_def set_upt atLeastLessThan_iff) simp
  have b: "(\<exists>j<length ns. fname f = ns ! j \<and> list_all (readable d) (take (Suc j) ns)
        \<and> (case header f of None \<Rightarrow> False | Some ex \<Rightarrow> ex \<le> now \<or> (i + j) mod 3 = 0)
        \<and> removable f) \<longleftrightarrow>
     (\<exists>j<length ns. fname f = ns ! j \<and> (\<forall>k\<le>j. readable d (ns ! k))
        \<and> (case header f of None \<Rightarrow> False | Some ex \<Rightarrow> ex \<le> now \<or> (i + j) mod 3 = 0)
        \<and> removable f)"
    by (simp only: list_all_take_Suc cong: conj_cong)
  show ?thesis
    using trans [OF a b] unfolding h .
qed

lemma list_dir_Inr:
  assumes "list_dir fs = Inr names" and "distinct (map fname (entries fs))"
  shows "distinct names \<and> set names \<subseteq> fname ` set (entries fs)"
  using assms by (auto simp: list_dir_def split: if_splits)

section \<open>Claims about the disk backend\<close>

text \<open>
  C7, as stated, fails where a removal fails: \<^verbatim>\<open>_del_file\<close> ignores the exception of
  \<^verbatim>\<open>os.remove\<close> and the scan goes on. With threshold 1 and the two files of \<open>dir2\<close>, at
  time 10, the file at index 0 (0 is a multiple of 3) is not deleted, and the scan is
  not aborted: the expired file at index 1 is deleted after it.
\<close>

theorem prune_keeps_unremovable_file:
  "list_dir dir2 = Inr [''aa'', ''bb'']
   \<and> DiskCache_prune \<lparr>disk_threshold = 1, disk_default_expire = 300\<rparr> dir2 10
       = (Inr (), dir2\<lparr>entries := [(cache_file ''aa'' 200 (PInt 0))\<lparr>removable := False\<rparr>]\<rparr>)"
  by (simp add: dir2_def disk_eval)

text \<open>
  C7, amended. With the names of the directory distinct and the listing \<open>names\<close>
  (the names that are not temporary): pruning changes nothing when the listing is not
  longer than the threshold; when it is longer, the files that stay are those that
  the rule does not delete, in their order, and the rule deletes the file \<open>f\<close> exactly
  when it stands at some index \<open>j\<close> of the listing, the expiry of every file up to
  index \<open>j\<close> can be read (an error in opening a file or loading its expiry ends the
  pass), its expiry is at most \<open>now\<close> or \<open>j mod 3 = 0\<close>, and its removal succeeds (a
  removal that fails is ignored and the scan goes on).
\<close>

theorem disk_prune_rule:
  assumes "distinct (map fname (entries fs))" and "list_dir fs = Inr names"
  shows "(\<not> disk_threshold c < int (length names) \<longrightarrow> DiskCache_prune c fs now = (Inr (), fs))
    \<and> (disk_threshold c < int (length names) \<longrightarrow>
          DiskCache_prune c fs now
            = (Inr (), fs\<lparr>entries :=
                 filter (\<lambda>f. \<not> scan_deletes now 0 names (entries fs) f) (entries fs)\<rparr>))
    \<and> (\<forall>f. scan_deletes now 0 names (entries fs) f \<longleftrightarrow>
          (\<exists>j<length names. fname f = names ! j
             \<and> (\<forall>k\<le>j. readable (entries fs) (names ! k))
             \<and> (\<exists>ex. header f = Some ex \<and> (ex \<le> now \<or> j mod 3 = 0))
             \<and> removable f))"
proof -
  have n: "distinct names" "set names \<subseteq> fname ` set (entries fs)"
    using list_dir_Inr [OF assms(2,1)] by simp_all
  have "prune_scan now 0 names (entries fs)
        = filter (\<lambda>f. \<not> scan_deletes now 0 names (entries fs) f) (entries fs)"
    using assms(1) n by (rule prune_scan_filter)
  then have "disk_threshold c < int (length names) \<longrightarrow>
          DiskCache_prune c fs now
            = (Inr (), fs\<lparr>entries :=
                 filter (\<lambda>f. \<not> scan_deletes now 0 names (entries fs) f) (entries fs)\<rparr>)"
    using assms(2) by (simp add: DiskCache_prune_def)
  moreover have "\<not> disk_threshold c < int (length names) \<longrightarrow>
      DiskCache_prune c fs now = (Inr (), fs)"
    using assms(2) by (simp add: DiskCache_prune_def)
  moreover have "\<forall>f. scan_deletes now 0 names (entries fs) f \<longleftrightarrow>
          (\<exists>j<length names. fname f = names ! j
             \<and> (\<forall>k\<le>j. readable (entries fs) (names ! k))
             \<and> (\<exists>ex. header f = Some ex \<and> (ex \<le> now \<or> j mod 3 = 0))
             \<and> removable f)"
    using scan_deletes_iff [of now 0 names "entries fs"] by simp
  ultimately show ?thesis by blast
qed

theorem disk_prune_rule_witness:
  "distinct (map fname (entries dir6))
   \<and> list_dir dir6 = Inr [''aa'', ''bb'', ''cc'', ''dd'', ''ee'']
   \<and> DiskCache_prune \<lparr>disk_threshold = 5, disk_default_expire = 300\<rparr> dir6 10 = (Inr (), dir6)
   \<and> DiskCache_prune \<lparr>disk_threshold = 2, disk_default_expire = 300\<rparr> dir6 10
       = (Inr (), dir6\<lparr>entries :=
            filter (\<lambda>f. \<not> scan_deletes 10 0 [''aa'', ''bb'', ''cc'', ''dd'', ''ee'']
                            (entries dir6) f) (entries dir6)\<rparr>)
   \<and> filter (\<lambda>f. \<not> scan_deletes 10 0 [''aa'', ''bb'', ''cc'', ''dd'', ''ee'']
                    (entries dir6) f) (entries dir6)
       = [cache_file ''bb'' 200 (PInt 1), (cache_file ''dd'' 5 (PInt 3))\<lparr>header := None\<rparr>,
          cache_file ''ee'' 5 (PInt 4), cache_file ''tmpx.__wp_cache'' 200 (PInt 5)]"
proof -
  have d: "distinct (map fname (entries dir6))"
    by (simp add: dir6_def cache_file_def)
  have l: "list_dir dir6 = Inr [''aa'', ''bb'', ''cc'', ''dd'', ''ee'']"
    by (simp add: dir6_def disk_eval)
  have e: "filter (\<lambda>f. \<not> scan_deletes 10 0 [''aa'', ''bb'', ''cc'', ''dd'', ''ee'']
                    (entries dir6) f) (entries dir6)
       = [cache_file ''bb'' 200 (PInt 1), (cache_file ''dd'' 5 (PInt 3))\<lparr>header := None\<rparr>,
          cache_file ''ee'' 5 (PInt 4), cache_file ''tmpx.__wp_cache'' 200 (PInt 5)]"
    by (simp add: dir6_def scan_deletes_def disk_eval upt_rec)
  have a: "DiskCache_prune \<lparr>disk_threshold = 5, disk_default_expire = 300\<rparr> dir6 10
      = (Inr (), dir6)"
    using disk_prune_rule [OF d l, of "\<lparr>disk_threshold = 5, disk_default_expire = 300\<rparr>" 10]
    by simp
  have b: "DiskCache_prune \<lparr>disk_threshold = 2, disk_default_expire = 300\<rparr> dir6 10
       = (Inr (), dir6\<lparr>entries :=
            filter (\<lambda>f. \<not> scan_deletes 10 0 [''aa'', ''bb'', ''cc'', ''dd'', ''ee'']
                            (entries dir6) f) (entries dir6)\<rparr>)"
    using disk_prune_rule [OF d l, of "\<lparr>disk_threshold = 2, disk_default_expire = 300\<rparr>" 10]
    by simp
  show ?thesis
    using d l a b e by blast
qed


end
